theory Spec2Isabelle
  imports Complex_Main "HOL-Library.Log_Nat" "HOL-Library.Word"
begin

section \<open>JavaScript values\<close>

subsection \<open>Strings\<close>

text \<open>
  A JavaScript string is a sequence of UTF-16 code units, and \<open>str.length\<close> counts code
  units. The literals of \<open>index.js\<close> that the model needs are ASCII; \<open>js\<close> turns an
  ASCII literal into its code units.
\<close>

type_synonym jsstring = "16 word list"

definition js :: "string \<Rightarrow> jsstring" where
  "js s = map of_char s"

text \<open>
  \<open>String.prototype.toLowerCase\<close>, on the letters \<open>A\<close> to \<open>Z\<close>; the other code units
  are left as they are. That is all \<open>index.js\<close> needs: it lowercases the replies it
  compares with ASCII literals (\<open>y\<close>, \<open>jpg\<close>, \<open>png\<close>, \<open>center\<close>, ...), and no
  string outside ASCII is turned into one of them, and the extension of an input file,
  which is \<open>jpg\<close>, \<open>jpeg\<close> or \<open>png\<close> in some letter case for every file that
  \<open>main\<close> accepts (\<open>isSupportedImage\<close>).
\<close>

definition lower_unit :: "16 word \<Rightarrow> 16 word" where
  "lower_unit c = (if 65 \<le> c \<and> c \<le> 90 then c + 32 else c)"

definition toLowerCase :: "jsstring \<Rightarrow> jsstring" where
  "toLowerCase s = map lower_unit s"

text \<open>
  \<open>String.prototype.trim\<close> removes white space and line terminators from both ends:
  U+0009..U+000D, U+0020, U+00A0, U+1680, U+2000..U+200A, U+2028, U+2029, U+202F, U+205F,
  U+3000 and U+FEFF.
\<close>

definition is_space :: "16 word \<Rightarrow> bool" where
  "is_space c =
     (List.member [9, 10, 11, 12, 13, 32, 160, 5760, 8232, 8233, 8239, 8287, 12288, 65279] c
      \<or> (8192 \<le> c \<and> c \<le> 8202))"

definition trim :: "jsstring \<Rightarrow> jsstring" where
  "trim s = rev (dropWhile is_space (rev (dropWhile is_space s)))"

text \<open>
  \<open>str.replace(/c/g, r)\<close> for a pattern that is one literal character: every occurrence
  of the code unit \<open>c\<close> is replaced by \<open>r\<close>, left to right, and the replacement is not
  scanned again. \<open>str.replace('c', r)\<close> with a string pattern replaces the first
  occurrence only.
\<close>

fun replace_all :: "16 word \<Rightarrow> jsstring \<Rightarrow> jsstring \<Rightarrow> jsstring" where
  "replace_all c r [] = []"
| "replace_all c r (x # xs) =
     (if x = c then r @ replace_all c r xs else x # replace_all c r xs)"

fun replace_first :: "16 word \<Rightarrow> jsstring \<Rightarrow> jsstring \<Rightarrow> jsstring" where
  "replace_first c r [] = []"
| "replace_first c r (x # xs) = (if x = c then r @ xs else x # replace_first c r xs)"

subsection \<open>Numbers\<close>

text \<open>
  A JavaScript number is an IEEE 754 binary64 value. The finite ones are rationals, and
  every arithmetic operation returns the exact result rounded to the nearest double, ties
  to the even significand. \<open>double_round\<close> is that rounding: for \<open>2^e \<le> |x| < 2^(e+1)\<close>
  the doubles around \<open>x\<close> are the multiples of \<open>2^(e-52)\<close>, and below \<open>2^-1022\<close>
  (subnormal numbers) the multiples of \<open>2^-1074\<close>. Results of magnitude \<open>2^1024\<close> and
  more (\<open>Infinity\<close>) and \<open>NaN\<close> are outside the model: the operands of \<open>index.js\<close>
  are image dimensions, string lengths and user values that the prompts have validated.
\<close>

definition ilog2 :: "rat \<Rightarrow> int" where
  "ilog2 x = (case quotient_of x of (p, q) \<Rightarrow>
     (let d = bitlen p - bitlen q in if 2 powi d \<le> x then d else d - 1))"

definition round_half_even :: "rat \<Rightarrow> int" where
  "round_half_even q =
     (let f = \<lfloor>q\<rfloor>; r = q - of_int f
      in if r < 1 / 2 then f else if 1 / 2 < r then f + 1 else if even f then f else f + 1)"

definition double_round :: "rat \<Rightarrow> rat" where
  "double_round x =
     (if x = 0 then 0
      else (let a = \<bar>x\<bar>; e = max (ilog2 a) (- 1022); ulp = 2 powi (e - 52)
            in sgn x * of_int (round_half_even (a / ulp)) * ulp))"

definition js_mul :: "rat \<Rightarrow> rat \<Rightarrow> rat" where
  "js_mul a b = double_round (a * b)"

definition js_div :: "rat \<Rightarrow> rat \<Rightarrow> rat" where
  "js_div a b = double_round (a / b)"

definition js_add :: "rat \<Rightarrow> rat \<Rightarrow> rat" where
  "js_add a b = double_round (a + b)"

text \<open>A decimal literal of the source denotes the double nearest to it.\<close>

definition literal :: "rat \<Rightarrow> rat" where
  "literal x = double_round x"

section \<open>Node's \<open>path\<close> module (POSIX)\<close>

text \<open>
  \<open>index.js\<close> applies \<open>path.extname\<close>, \<open>path.parse\<close>, \<open>path.dirname\<close>,
  \<open>path.basename\<close> and \<open>path.join\<close> to paths that \<open>path.resolve\<close> has made absolute
  and normal (no trailing slash, no empty segment). On such paths they read as follows.
  The extension starts at the last dot of the base name, unless that dot is its first
  character or the base name is \<open>..\<close>.
\<close>

definition slash :: "16 word" where
  "slash = 47"

definition dot :: "16 word" where
  "dot = 46"

definition basename :: "jsstring \<Rightarrow> jsstring" where
  "basename p = rev (takeWhile (\<lambda>c. c \<noteq> slash) (rev p))"

definition dirname :: "jsstring \<Rightarrow> jsstring" where
  "dirname p =
     (if \<not> List.member p slash then [dot]
      else (let d = rev (tl (dropWhile (\<lambda>c. c \<noteq> slash) (rev p)))
            in if d = [] then [slash] else d))"

definition extname :: "jsstring \<Rightarrow> jsstring" where
  "extname p =
     (let b = basename p; e = rev (takeWhile (\<lambda>c. c \<noteq> dot) (rev b))
      in if \<not> List.member b dot then []
         else if length e + 1 = length b then []
         else if b = [dot, dot] then []
         else dot # e)"

definition parse_name :: "jsstring \<Rightarrow> jsstring" where
  "parse_name p = (let b = basename p in take (length b - length (extname p)) b)"

definition join :: "jsstring \<Rightarrow> jsstring \<Rightarrow> jsstring" where
  "join dir file = (if dir \<noteq> [] \<and> last dir = slash then dir @ file else dir @ [slash] @ file)"

section \<open>\<open>escapeXML\<close> and \<open>createTextWatermarkSVG\<close>\<close>

definition escapeXML :: "jsstring \<Rightarrow> jsstring" where
  "escapeXML str =
     replace_all 39 (js ''&#39;'')
       (replace_all 34 (js ''&quot;'')
         (replace_all 62 (js ''&gt;'')
           (replace_all 60 (js ''&lt;'')
             (replace_all 38 (js ''&amp;'') str))))"

text \<open>
  The reader that the escaping is written for: an XML parser replaces each of the five
  entity references by its character and leaves everything else as it is. \<open>index.js\<close>
  has no such function (the SVG rasterizer does the reading); it is here to state that the
  escaped text is read back as the original. \<open>unescapeXML 0 s\<close> reads \<open>s\<close>; the
  first argument counts the code units of a recognized reference that are still to be
  passed over.
\<close>

fun xml_entity :: "jsstring \<Rightarrow> (16 word \<times> nat) option" where
  "xml_entity s =
     (if take 5 s = js ''&amp;'' then Some (38, 5)
      else if take 4 s = js ''&lt;'' then Some (60, 4)
      else if take 4 s = js ''&gt;'' then Some (62, 4)
      else if take 6 s = js ''&quot;'' then Some (34, 6)
      else if take 5 s = js ''&#39;'' then Some (39, 5)
      else None)"

fun unescapeXML :: "nat \<Rightarrow> jsstring \<Rightarrow> jsstring" where
  "unescapeXML skip [] = []"
| "unescapeXML (Suc k) (x # xs) = unescapeXML k xs"
| "unescapeXML 0 (x # xs) =
     (case xml_entity (x # xs) of
        Some (c, n) \<Rightarrow> c # unescapeXML (n - 1) xs
      | None \<Rightarrow> x # unescapeXML 0 xs)"

text \<open>
  The options object of \<open>createTextWatermarkSVG\<close>, and the SVG document it returns. The
  document is a fixed template; the record has one field for each value the template
  interpolates, in the order of the template, and the fixed \<open>text-anchor\<close> and
  \<open>dominant-baseline\<close> declarations. Numbers are kept as numbers: their decimal rendering
  is not modelled.
\<close>

record text_opts =
  o_text :: jsstring
  o_fontFamily :: jsstring
  o_fontSize :: rat
  o_color :: jsstring
  o_bold :: bool
  o_italic :: bool
  o_opacity :: rat

record svg =
  svg_width :: rat
  svg_height :: rat
  css_fill :: jsstring
  css_fill_opacity :: rat
  css_font_family :: jsstring
  css_font_size :: rat
  css_font_weight :: jsstring
  css_font_style :: jsstring
  css_text_anchor :: jsstring
  css_dominant_baseline :: jsstring
  text_x :: rat
  text_y :: rat
  text_body :: jsstring

definition createTextWatermarkSVG :: "text_opts \<Rightarrow> svg" where
  "createTextWatermarkSVG opts =
     (let weight = (if o_bold opts then js ''bold'' else js ''normal'');
          style = (if o_italic opts then js ''italic'' else js ''normal'');
          width = max 500 (js_mul (js_mul (of_nat (length (o_text opts))) (o_fontSize opts))
                             (literal (8 / 10)));
          height = js_mul (o_fontSize opts) 2;
          centerX = js_div width 2;
          centerY = js_add (js_div height 2) (js_div (o_fontSize opts) 3)
      in \<lparr> svg_width = width, svg_height = height,
           css_fill = o_color opts, css_fill_opacity = o_opacity opts,
           css_font_family = o_fontFamily opts, css_font_size = o_fontSize opts,
           css_font_weight = weight, css_font_style = style,
           css_text_anchor = js ''middle'', css_dominant_baseline = js ''middle'',
           text_x = centerX, text_y = centerY,
           text_body = escapeXML (o_text opts) \<rparr>)"

text \<open>
  The text branch of \<open>main\<close> calls \<open>createTextWatermarkSVG({ ...textOpts, opacity })\<close>:
  the options of the text with the opacity of the run.
\<close>

definition svgBuffer :: "text_opts \<Rightarrow> rat \<Rightarrow> svg" where
  "svgBuffer textOpts opacity = createTextWatermarkSVG (textOpts\<lparr> o_opacity := opacity \<rparr>)"

text \<open>
  The claim's wording of the escaping, one character at a time: each of the five special
  characters becomes its entity reference and every other character stays. It is compared
  with \<open>escapeXML\<close>, which makes five passes over the whole string.
\<close>

definition entity_of :: "16 word \<Rightarrow> jsstring" where
  "entity_of c =
     (if c = 38 then js ''&amp;''
      else if c = 60 then js ''&lt;''
      else if c = 62 then js ''&gt;''
      else if c = 34 then js ''&quot;''
      else if c = 39 then js ''&#39;''
      else [c])"

section \<open>\<open>applyWatermark\<close>\<close>

text \<open>
  The image engine (\<open>sharp\<close>) is not part of the repository. What \<open>applyWatermark\<close>
  does with it is to build a chain of engine calls and to await their results. The chain
  is kept as a term, one constructor for each call of the source; the awaited results
  come from an \<open>engine\<close>, which answers a metadata request with the dimensions or with
  the message of the error it throws, and the rendering of the chain (the two
  \<open>toBuffer\<close> calls and the final \<open>toFile\<close>) with the message of an error, if one is
  thrown anywhere in it.

  The metadata of the base image has both dimensions (the source uses them unchecked);
  the metadata of the watermark may lack either one, which the source tests for.
  Dimensions are integers far below \<open>2^53\<close>, where the subtractions and the halving of
  the source are exact in double arithmetic; they are modelled on \<open>int\<close>.
\<close>

type_synonym buffer = "8 word list"

record metadata =
  meta_width :: "nat option"
  meta_height :: "nat option"

record solid =
  solid_width :: int
  solid_height :: int
  solid_channels :: nat
  solid_r :: nat
  solid_g :: nat
  solid_b :: nat
  solid_alpha :: rat

datatype blend = Over | DestIn

datatype image =
    FromFile jsstring
  | FromBuffer buffer
  | Create solid
  | EnsureAlpha image
  | Png image
  | Jpeg nat image
  | Resize int int image
  | Composite image "(int \<times> int) option" blend image

record engine =
  file_metadata :: "jsstring \<Rightarrow> jsstring + nat \<times> nat"
  buffer_metadata :: "buffer \<Rightarrow> jsstring + metadata"
  to_file :: "image \<Rightarrow> jsstring \<Rightarrow> jsstring option"

text \<open>
  \<open>targetW = Math.floor(baseWidth * scale)\<close>;
  \<open>ratio = wmMeta.width ? targetW / wmMeta.width : 1\<close>;
  \<open>targetH = wmMeta.height ? Math.floor(wmMeta.height * ratio) : Math.floor(targetW * 0.5)\<close>.
  A dimension is falsy when it is missing or zero.
\<close>

definition targetW :: "nat \<Rightarrow> rat \<Rightarrow> int" where
  "targetW baseWidth scale = \<lfloor>js_mul (of_nat baseWidth) scale\<rfloor>"

definition truthy :: "nat option \<Rightarrow> bool" where
  "truthy d = (case d of None \<Rightarrow> False | Some n \<Rightarrow> n \<noteq> 0)"

definition ratio :: "int \<Rightarrow> metadata \<Rightarrow> rat" where
  "ratio tW wmMeta =
     (if truthy (meta_width wmMeta)
      then js_div (of_int tW) (of_nat (the (meta_width wmMeta)))
      else 1)"

definition targetH :: "int \<Rightarrow> metadata \<Rightarrow> int" where
  "targetH tW wmMeta =
     (if truthy (meta_height wmMeta)
      then \<lfloor>js_mul (of_nat (the (meta_height wmMeta))) (ratio tW wmMeta)\<rfloor>
      else \<lfloor>js_mul (of_int tW) (literal (5 / 10))\<rfloor>)"

text \<open>The opacity pass on the resized watermark.\<close>

definition processedWatermark :: "image \<Rightarrow> int \<Rightarrow> int \<Rightarrow> bool \<Rightarrow> rat \<Rightarrow> image" where
  "processedWatermark watermark tW tH isTextWatermark opacity =
     (let resized = Resize tW tH watermark
      in if \<not> isTextWatermark \<and> opacity < 1
         then (let transparentOverlay =
                     Png (Create \<lparr> solid_width = tW, solid_height = tH, solid_channels = 4,
                                   solid_r = 255, solid_g = 255, solid_b = 255,
                                   solid_alpha = opacity \<rparr>)
               in Composite transparentOverlay None DestIn resized)
         else resized)"

text \<open>The \<open>switch (position)\<close>: the pair \<open>(left, top)\<close>.\<close>

definition offset :: "jsstring \<Rightarrow> nat \<Rightarrow> nat \<Rightarrow> int \<Rightarrow> int \<Rightarrow> int \<times> int" where
  "offset position baseWidth baseHeight tW tH =
     (if position = js ''top-left'' then (0, 0)
      else if position = js ''top-right'' then (int baseWidth - tW, 0)
      else if position = js ''bottom-left'' then (0, int baseHeight - tH)
      else if position = js ''bottom-right'' then (int baseWidth - tW, int baseHeight - tH)
      else ((int baseWidth - tW) div 2, (int baseHeight - tH) div 2))"

definition applyWatermark ::
  "engine \<Rightarrow> jsstring \<Rightarrow> buffer \<Rightarrow> rat \<Rightarrow> jsstring \<Rightarrow> rat \<Rightarrow> jsstring \<Rightarrow> jsstring \<Rightarrow> bool
     \<Rightarrow> jsstring + image" where
  "applyWatermark eng inputPath watermarkBuf scale position opacity outputFormat outputPath
     isTextWatermark =
     (case file_metadata eng inputPath of
        Inl err \<Rightarrow> Inl err
      | Inr (baseWidth, baseHeight) \<Rightarrow>
          (case buffer_metadata eng watermarkBuf of
             Inl err \<Rightarrow> Inl err
           | Inr wmMeta \<Rightarrow>
               (let watermark = Png (EnsureAlpha (FromBuffer watermarkBuf));
                    tW = targetW baseWidth scale;
                    tH = targetH tW wmMeta;
                    resizedWatermarkBuf =
                      Png (processedWatermark watermark tW tH isTextWatermark opacity);
                    (left, top) = offset position baseWidth baseHeight tW tH;
                    composed =
                      Composite resizedWatermarkBuf (Some (top, left)) Over (FromFile inputPath);
                    outputSharp =
                      (if outputFormat = js ''jpg'' \<or> outputFormat = js ''jpeg''
                       then Jpeg 95 composed else Png composed)
                in case to_file eng outputSharp outputPath of
                     Some err \<Rightarrow> Inl err
                   | None \<Rightarrow> Inr outputSharp)))"

section \<open>The batch loop of \<open>main\<close>\<close>

definition generateOutputName :: "jsstring \<Rightarrow> jsstring \<Rightarrow> jsstring \<Rightarrow> jsstring" where
  "generateOutputName inputFile outputDir format =
     (let newName = parse_name inputFile @ js ''_watermarked.'' @ format
      in join outputDir newName)"

text \<open>
  \<open>ask\<close> resolves to the operator's reply, trimmed. The operator is a sequence of raw
  replies; the world counts the questions asked so far. The values that \<open>main\<close> reads
  before the loop and the loop uses are collected in \<open>settings\<close>; \<open>read_format\<close> and
  \<open>read_overwriteOption\<close> are the two prompts whose parsing matters below.
\<close>

type_synonym operator = "nat \<Rightarrow> jsstring"

definition ask :: "operator \<Rightarrow> nat \<Rightarrow> jsstring" where
  "ask replies n = trim (replies n)"

definition read_format :: "jsstring \<Rightarrow> jsstring" where
  "read_format raw = toLowerCase (trim raw)"

definition read_overwriteOption :: "jsstring \<Rightarrow> jsstring" where
  "read_overwriteOption raw =
     (let lowered = toLowerCase (trim raw);
          overwriteOption = (if lowered = [] then js ''a'' else lowered)
      in if \<not> List.member [js ''o'', js ''s'', js ''a''] overwriteOption then js ''a''
         else overwriteOption)"

record settings =
  cfg_scale :: rat
  cfg_opacity :: rat
  cfg_position :: jsstring
  cfg_format :: jsstring
  cfg_outDir :: jsstring
  cfg_overwriteOption :: jsstring
  cfg_watermarkBuffer :: buffer
  cfg_isTextWatermark :: bool

definition overwriteAll :: "settings \<Rightarrow> bool" where
  "overwriteAll cfg = (cfg_overwriteOption cfg = js ''o'')"

definition skipAll :: "settings \<Rightarrow> bool" where
  "skipAll cfg = (cfg_overwriteOption cfg = js ''s'')"

text \<open>
  The world the loop acts on: the files that exist (an output file holds the chain that
  rendered it), the writes issued to \<open>error.log\<close>, the console and the number of
  questions asked. Both writes to \<open>error.log\<close> sit in a \<open>try\<close> whose \<open>catch\<close> ignores the
  failure, so the loop goes on in the same way whether the write succeeds or not; the
  world records the write that is issued, and \<open>log_content\<close> is what the file holds when
  the writes succeed. Console messages are recorded by kind, with the values they
  interpolate.
\<close>

datatype disk_file = Bytes buffer | Rendered image

datatype log_write = Truncate | Append jsstring

datatype notice =
    Question jsstring
  | SkipNotice jsstring
  | SavedNotice jsstring
  | ErrorNotice jsstring jsstring
  | Completed

record world =
  files :: "jsstring \<Rightarrow> disk_file option"
  error_log :: "log_write list"
  console :: "notice list"
  asked :: nat

fun log_content :: "log_write list \<Rightarrow> jsstring \<Rightarrow> jsstring" where
  "log_content [] content = content"
| "log_content (Truncate # ws) content = log_content ws []"
| "log_content (Append msg # ws) content = log_content ws (content @ msg)"

text \<open>Format resolution and output path of one file (the first lines of the loop body).\<close>

definition outFormat :: "jsstring \<Rightarrow> jsstring \<Rightarrow> jsstring" where
  "outFormat format inputFile =
     (let ext = replace_first dot [] (toLowerCase (extname inputFile))
      in if \<not> List.member [js ''jpg'', js ''jpeg'', js ''png''] format
         then (if ext = js ''jpeg'' then js ''jpg'' else ext)
         else format)"

definition outputPath :: "settings \<Rightarrow> jsstring \<Rightarrow> jsstring" where
  "outputPath cfg inputFile =
     (let targetDir = (if cfg_outDir cfg \<noteq> [] then cfg_outDir cfg else dirname inputFile)
      in generateOutputName inputFile targetDir (outFormat (cfg_format cfg) inputFile))"

text \<open>
  The conflict check: whether to proceed, and the world after a possible question.
\<close>

definition proceed :: "operator \<Rightarrow> settings \<Rightarrow> jsstring \<Rightarrow> world \<Rightarrow> bool \<times> world" where
  "proceed replies cfg path w =
     (if files w path \<noteq> None then
        (if overwriteAll cfg then (True, w)
         else if skipAll cfg then (False, w)
         else (let choice = ask replies (asked w);
                   w' = w\<lparr> console := console w @ [Question path], asked := asked w + 1 \<rparr>
               in (toLowerCase choice = js ''y'', w')))
      else (True, w))"

text \<open>
  The call of \<open>applyWatermark\<close> with its two continuations: the success message, and the
  \<open>catch\<close> that writes the log line \<open>inputFile - message\<close> followed by a newline.
\<close>

definition attempt :: "engine \<Rightarrow> settings \<Rightarrow> jsstring \<Rightarrow> jsstring \<Rightarrow> world \<Rightarrow> world" where
  "attempt eng cfg inputFile path w =
     (case applyWatermark eng inputFile (cfg_watermarkBuffer cfg) (cfg_scale cfg)
             (cfg_position cfg) (cfg_opacity cfg) (outFormat (cfg_format cfg) inputFile)
             path (cfg_isTextWatermark cfg) of
        Inr rendered \<Rightarrow>
          w\<lparr> files := (files w)(path \<mapsto> Rendered rendered),
             console := console w @ [SavedNotice (basename path)] \<rparr>
      | Inl message \<Rightarrow>
          w\<lparr> error_log := error_log w @ [Append (inputFile @ js '' - '' @ message @ [10])],
             console := console w @ [ErrorNotice inputFile message] \<rparr>)"

text \<open>One iteration of the loop: the \<open>try\<close> block with its \<open>continue\<close>.\<close>

definition process_file :: "engine \<Rightarrow> operator \<Rightarrow> settings \<Rightarrow> world \<Rightarrow> jsstring \<Rightarrow> world" where
  "process_file eng replies cfg w inputFile =
     (let path = outputPath cfg inputFile;
          (go, w1) = proceed replies cfg path w
      in if \<not> go then w1\<lparr> console := console w1 @ [SkipNotice (basename path)] \<rparr>
         else attempt eng cfg inputFile path w1)"

text \<open>
  The end of \<open>main\<close>: \<open>error.log\<close> is emptied, the files are processed in order, and the
  closing message is printed.
\<close>

definition main_batch :: "engine \<Rightarrow> operator \<Rightarrow> settings \<Rightarrow> jsstring list \<Rightarrow> world \<Rightarrow> world" where
  "main_batch eng replies cfg filesToProcess w =
     (let w0 = w\<lparr> error_log := error_log w @ [Truncate] \<rparr>;
          w1 = foldl (process_file eng replies cfg) w0 filesToProcess
      in w1\<lparr> console := console w1 @ [Completed] \<rparr>)"

text \<open>
  Two readings of the console for the statements about the batch: the log lines that
  belong to the error messages printed, and the number of files that reached an outcome
  (saved, skipped or failed).
\<close>

fun log_lines :: "notice list \<Rightarrow> log_write list" where
  "log_lines [] = []"
| "log_lines (ErrorNotice inputFile message # ns) =
     Append (inputFile @ js '' - '' @ message @ [10]) # log_lines ns"
| "log_lines (n # ns) = log_lines ns"

fun outcomes :: "notice list \<Rightarrow> nat" where
  "outcomes [] = 0"
| "outcomes (Question p # ns) = outcomes ns"
| "outcomes (Completed # ns) = outcomes ns"
| "outcomes (n # ns) = Suc (outcomes ns)"

section \<open>A sample run\<close>

text \<open>
  The inputs of the examples below: an engine that cannot decode \<open>/photos/b.png\<close> and
  renders everything else (base images of 1000 by 800, a watermark of 200 by 100), the
  settings of a run with the default scale and opacity, no output format and no output
  directory, and a disk that holds four pictures and one earlier output.
\<close>

definition sample_engine :: engine where
  "sample_engine =
     \<lparr> file_metadata =
         (\<lambda>p. if p = js ''/photos/b.png''
              then Inl (js ''Input file contains unsupported image format'')
              else Inr (1000, 800)),
       buffer_metadata = (\<lambda>b. Inr \<lparr> meta_width = Some 200, meta_height = Some 100 \<rparr>),
       to_file = (\<lambda>chain p. None) \<rparr>"

definition sample_settings :: "jsstring \<Rightarrow> settings" where
  "sample_settings overwriteOption =
     \<lparr> cfg_scale = literal (7 / 10), cfg_opacity = literal (5 / 10),
       cfg_position = js ''center'', cfg_format = [], cfg_outDir = [],
       cfg_overwriteOption = overwriteOption, cfg_watermarkBuffer = [],
       cfg_isTextWatermark = False \<rparr>"

definition sample_world :: world where
  "sample_world =
     \<lparr> files =
         (\<lambda>p. if List.member [js ''/photos/a.png'', js ''/photos/b.png'', js ''/photos/c.jpg'',
                              js ''/photos/cat.png'', js ''/photos/cat_watermarked.png''] p
              then Some (Bytes []) else None),
       error_log = [], console = [], asked = 0 \<rparr>"

section \<open>Double arithmetic\<close>

text \<open>\<open>ilog2\<close> is the binary exponent: \<open>2^(ilog2 x) \<le> x < 2^(ilog2 x + 1)\<close>.\<close>

lemma bitlen_powi_bounds:
  assumes "0 < (p::int)"
  shows "(2::rat) powi (bitlen p - 1) \<le> of_int p" and "of_int p < (2::rat) powi bitlen p"
proof -
  from bitlen_bounds [OF assms]
  have lo: "2 ^ nat (bitlen p - 1) \<le> p" and hi: "p < 2 ^ nat (bitlen p)" by auto
  have ge1: "1 \<le> bitlen p" using assms by (auto simp: bitlen_alt_def)
  have "(of_int (2 ^ nat (bitlen p - 1)) :: rat) \<le> of_int p"
    using lo by (simp only: of_int_le_iff)
  then show "(2::rat) powi (bitlen p - 1) \<le> of_int p"
    using ge1 by (simp add: power_int_def)
  have "(of_int p :: rat) < of_int (2 ^ nat (bitlen p))"
    using hi by (simp only: of_int_less_iff)
  then show "of_int p < (2::rat) powi bitlen p"
    using ge1 by (simp add: power_int_def)
qed

lemma ilog2_bounds:
  assumes "0 < x"
  shows "2 powi ilog2 x \<le> x" and "x < 2 powi (ilog2 x + 1)"
proof -
  obtain p q where pq: "quotient_of x = (p, q)" by (cases "quotient_of x")
  then have q: "0 < q" and x: "x = of_int p / of_int q"
    by (simp_all add: quotient_of_denom_pos quotient_of_div)
  from assms x q have p: "0 < p"
    by (simp add: zero_less_divide_iff)
  define d where "d = bitlen p - bitlen q"
  have e: "ilog2 x = (if 2 powi d \<le> x then d else d - 1)"
    by (simp add: ilog2_def pq d_def Let_def)
  note bp = bitlen_powi_bounds [OF p] and bq = bitlen_powi_bounds [OF q]
  have qpos: "(0::rat) < of_int q" using q by simp
  have lower: "2 powi (d - 1) \<le> x"
  proof -
    have "(2::rat) powi (d - 1) = 2 powi (bitlen p - 1) / 2 powi bitlen q"
      by (simp add: d_def power_int_diff)
    also have "\<dots> \<le> of_int p / 2 powi bitlen q"
      using bp(1) by (simp add: divide_right_mono)
    also have "\<dots> \<le> of_int p / of_int q"
      using bq(2) qpos p by (simp add: frac_le)
    finally show ?thesis by (simp add: x)
  qed
  have upper: "x < 2 powi (d + 1)"
  proof -
    have "x = of_int p / of_int q" by (rule x)
    also have "\<dots> < 2 powi bitlen p / of_int q"
      using bp(2) qpos by (simp add: divide_strict_right_mono)
    also have "\<dots> \<le> 2 powi bitlen p / 2 powi (bitlen q - 1)"
      using bq(1) by (simp add: frac_le)
    also have "\<dots> = 2 powi (bitlen p - (bitlen q - 1))"
      by (rule power_int_diff [symmetric]) simp
    also have "bitlen p - (bitlen q - 1) = d + 1"
      by (simp add: d_def)
    finally show ?thesis .
  qed
  show "2 powi ilog2 x \<le> x" using lower by (simp add: e)
  show "x < 2 powi (ilog2 x + 1)" using upper by (auto simp add: e)
qed

text \<open>Rounding to an integer moves a number by at most one half and is monotone.\<close>

lemma round_half_even_close: "\<bar>of_int (round_half_even q) - q\<bar> \<le> 1 / 2"
proof -
  have "of_int \<lfloor>q\<rfloor> \<le> q" "q < of_int \<lfloor>q\<rfloor> + 1" by linarith+
  then show ?thesis
    by (auto simp add: round_half_even_def Let_def abs_le_iff not_less)
qed

lemma round_half_even_le:
  assumes "q \<le> of_int n"
  shows "round_half_even q \<le> n"
proof -
  have f: "\<lfloor>q\<rfloor> \<le> n" using assms by (simp add: floor_le_iff)
  have "\<lfloor>q\<rfloor> < n" if "0 < q - of_int \<lfloor>q\<rfloor>"
  proof -
    from that have "of_int \<lfloor>q\<rfloor> < q" by simp
    with assms have "(of_int \<lfloor>q\<rfloor> :: rat) < of_int n" by linarith
    then show ?thesis by (simp only: of_int_less_iff)
  qed
  with f show ?thesis
    by (auto simp add: round_half_even_def Let_def not_less)
qed

lemma round_half_even_ge:
  assumes "of_int n \<le> q"
  shows "n \<le> round_half_even q"
proof -
  have "n \<le> \<lfloor>q\<rfloor>" using assms by (simp add: le_floor_iff)
  then show ?thesis
    by (auto simp add: round_half_even_def Let_def)
qed

lemma round_half_even_of_int: "round_half_even (of_int n) = n"
  by (simp add: round_half_even_def)

lemma double_round_pos:
  assumes "0 < x"
  shows "double_round x =
           of_int (round_half_even (x / 2 powi (max (ilog2 x) (- 1022) - 52)))
             * 2 powi (max (ilog2 x) (- 1022) - 52)"
  using assms by (simp add: double_round_def Let_def)

lemma double_round_nonneg:
  assumes "0 \<le> x"
  shows "0 \<le> double_round x"
proof (cases "x = 0")
  case True
  then show ?thesis by (simp add: double_round_def)
next
  case False
  with assms have x: "0 < x" by simp
  let ?u = "(2::rat) powi (max (ilog2 x) (- 1022) - 52)"
  have "of_int 0 \<le> x / ?u" using x by simp
  then have "0 \<le> round_half_even (x / ?u)" by (rule round_half_even_ge)
  then show ?thesis by (simp add: double_round_pos [OF x])
qed

lemma ilog2_less:
  assumes "0 < x" "x < 2 powi k"
  shows "ilog2 x < k"
proof -
  have lt: "(2::rat) powi ilog2 x < 2 powi k"
    using ilog2_bounds(1) [OF assms(1)] assms(2) by linarith
  show ?thesis
  proof (rule ccontr)
    assume "\<not> ilog2 x < k"
    then have "k \<le> ilog2 x" by simp
    then have "(2::rat) powi k \<le> 2 powi ilog2 x"
      by (rule power_int_increasing) simp
    with lt show False by simp
  qed
qed

text \<open>
  Rounding to a double never passes an integer below \<open>2^53\<close>, and every such integer
  is a double. With the halves below, this is why the sums and differences of image
  dimensions, and their halving, are modelled on \<open>int\<close>.
\<close>

lemma double_round_le_int:
  assumes x: "0 < x" and le: "x \<le> of_int n" and n: "n < 2 ^ 53"
  shows "double_round x \<le> of_int n"
proof -
  define e where "e = max (ilog2 x) (- 1022)"
  define k where "k = nat (52 - e)"
  have "x < 2 powi 53"
  proof -
    have "(of_int n :: rat) < of_int (2 ^ 53)" using n by (simp only: of_int_less_iff)
    with le show ?thesis by simp
  qed
  then have "ilog2 x < 53" by (rule ilog2_less [OF x])
  then have e: "e \<le> 52" by (simp add: e_def)
  then have u: "(2::rat) powi (e - 52) = 1 / 2 ^ k"
    by (simp add: k_def power_int_def field_simps)
  have "x / (1 / 2 ^ k) \<le> of_int (n * 2 ^ k)"
    using le by (simp add: mult_right_mono)
  then have "round_half_even (x / (1 / 2 ^ k)) \<le> n * 2 ^ k"
    by (rule round_half_even_le)
  then have "(of_int (round_half_even (x / (1 / 2 ^ k))) :: rat) \<le> of_int (n * 2 ^ k)"
    by (simp only: of_int_le_iff)
  then have "of_int (round_half_even (x / (1 / 2 ^ k))) * (1 / 2 ^ k) \<le> (of_int n :: rat)"
    by (simp add: field_simps)
  then show ?thesis
    using u by (simp add: double_round_pos [OF x] e_def [symmetric])
qed

lemma double_round_of_int:
  assumes n: "\<bar>n\<bar> < 2 ^ 53"
  shows "double_round (of_int n) = of_int n"
proof -
  have pos: "double_round (of_int m) = of_int m" if m: "0 < m" "m < 2 ^ 53" for m :: int
  proof -
    let ?x = "of_int m :: rat"
    have x: "0 < ?x" using m by simp
    define e where "e = max (ilog2 ?x) (- 1022)"
    define k where "k = nat (52 - e)"
    have "?x < of_int (2 ^ 53)" using m by (simp only: of_int_less_iff)
    then have "?x < 2 powi 53" by simp
    then have "ilog2 ?x < 53" by (rule ilog2_less [OF x])
    then have e: "e \<le> 52" by (simp add: e_def)
    then have u: "(2::rat) powi (e - 52) = 1 / 2 ^ k"
      by (simp add: k_def power_int_def field_simps)
    have "?x / (1 / 2 ^ k) = of_int (m * 2 ^ k)" by simp
    then have "round_half_even (?x / (1 / 2 ^ k)) = m * 2 ^ k"
      by (simp only: round_half_even_of_int)
    then show ?thesis
      using u by (simp add: double_round_pos [OF x] e_def [symmetric])
  qed
  have neg: "double_round (- y) = - double_round y" for y
    by (simp add: double_round_def Let_def)
  consider "n = 0" | "0 < n" | "n < 0" by linarith
  then show ?thesis
  proof cases
    case 1
    then show ?thesis by (simp add: double_round_def)
  next
    case 2
    with n show ?thesis by (simp add: pos)
  next
    case 3
    with n have "double_round (of_int (- n)) = of_int (- n)" by (intro pos) simp_all
    then show ?thesis using neg [of "of_int n"] by simp
  qed
qed

lemma double_round_half_int:
  assumes n: "0 \<le> n" "n < 2 ^ 53"
  shows "double_round (of_int n / 2) = of_int n / 2"
proof (cases "n = 0")
  case True
  then show ?thesis by (simp add: double_round_def)
next
  case False
  let ?x = "of_int n / 2 :: rat"
  have x: "0 < ?x" using n False by simp
  define e where "e = max (ilog2 ?x) (- 1022)"
  define k where "k = nat (51 - e)"
  have "(of_int n :: rat) < of_int (2 ^ 53)" using n by (simp only: of_int_less_iff)
  then have "?x < 2 powi 52" by simp
  then have "ilog2 ?x < 52" by (rule ilog2_less [OF x])
  then have e: "e \<le> 51" by (simp add: e_def)
  then have "(2::rat) powi (e - 52) = 1 / 2 ^ Suc k"
    by (simp add: k_def power_int_def field_simps flip: power_Suc)
  then have u: "(2::rat) powi (e - 52) = 1 / (2 * 2 ^ k)" by simp
  have "?x / (1 / (2 * 2 ^ k)) = of_int (n * 2 ^ k)" by simp
  then have "round_half_even (?x / (1 / (2 * 2 ^ k))) = n * 2 ^ k"
    by (simp only: round_half_even_of_int)
  then show ?thesis
    using u by (simp add: double_round_pos [OF x] e_def [symmetric])
qed

text \<open>In the normal range the relative error of one rounding is at most \<open>2^-53\<close>.\<close>

lemma double_round_error:
  assumes x: "2 powi (- 1022) \<le> x"
  shows "\<bar>double_round x - x\<bar> \<le> x / 2 ^ 53"
proof -
  have pos: "0 < x" using x by (rule less_le_trans [rotated]) simp
  have "\<not> ilog2 x + 1 \<le> - 1022"
  proof
    assume "ilog2 x + 1 \<le> - 1022"
    then have "(2::rat) powi (ilog2 x + 1) \<le> 2 powi (- 1022)"
      by (rule power_int_increasing) simp
    with ilog2_bounds(2) [OF pos] x show False by linarith
  qed
  then have e: "max (ilog2 x) (- 1022) = ilog2 x" by simp
  let ?u = "(2::rat) powi (ilog2 x - 52)"
  have u: "0 < ?u" by simp
  have dr: "double_round x = of_int (round_half_even (x / ?u)) * ?u"
    by (simp add: double_round_pos [OF pos] e)
  have "\<bar>double_round x - x\<bar> = \<bar>of_int (round_half_even (x / ?u)) - x / ?u\<bar> * ?u"
  proof -
    have "double_round x - x = (of_int (round_half_even (x / ?u)) - x / ?u) * ?u"
      using u by (simp add: dr field_simps)
    then show ?thesis using u by (simp add: abs_mult)
  qed
  also have "\<dots> \<le> 1 / 2 * ?u"
    using round_half_even_close [of "x / ?u"] u by (intro mult_right_mono) simp_all
  also have "\<dots> = 2 powi ilog2 x / 2 ^ 53"
  proof -
    have "?u = 2 powi ilog2 x / 2 powi 52" by (rule power_int_diff) simp
    then show ?thesis by simp
  qed
  also have "\<dots> \<le> x / 2 ^ 53"
    using ilog2_bounds(1) [OF pos] by (simp add: divide_right_mono)
  finally show ?thesis .
qed

lemma tiny_le: "(2::rat) powi (- 1022) \<le> 1 / 2 ^ 54"
proof -
  have "(2::rat) powi (- 1022) \<le> 2 powi (- 54)"
    by (rule power_int_increasing) simp_all
  also have "\<dots> = 1 / 2 ^ 54"
    by (simp add: power_int_minus field_simps)
  finally show ?thesis .
qed

text \<open>
  The two roundings in \<open>height * (targetW / width)\<close> move the result by less than
  \<open>1 / width\<close>, for dimensions whose product is below \<open>2^51\<close>.
\<close>

lemma scaled_height_error:
  fixes h w :: nat and tW :: int
  assumes w: "0 < w" "w < 2 ^ 53" and h: "0 < h" and tW: "0 < tW"
    and small: "int h * tW < 2 ^ 51"
  defines "X \<equiv> (of_nat h * of_int tW / of_nat w :: rat)"
  shows "\<bar>js_mul (of_nat h) (js_div (of_int tW) (of_nat w)) - X\<bar> < 1 / of_nat w"
proof -
  define \<rho> :: rat where "\<rho> = of_int tW / of_nat w"
  define r where "r = double_round \<rho>"
  define y where "y = double_round (of_nat h * r)"
  have wpos: "(0::rat) < of_nat w" using w by simp
  have hge: "(1::rat) \<le> of_nat h" using h by simp
  have tge: "(1::rat) \<le> of_int tW" using tW by simp
  have wlt: "(of_nat w :: rat) \<le> 2 ^ 53"
  proof -
    have "(of_nat w :: rat) < of_nat (2 ^ 53)" using w(2) by (simp only: of_nat_less_iff)
    then show ?thesis by simp
  qed
  have \<rho>_lo: "1 / 2 ^ 53 \<le> \<rho>"
  proof -
    have "(1::rat) / 2 ^ 53 \<le> 1 / of_nat w" using wlt wpos by (simp add: frac_le)
    also have "\<dots> \<le> of_int tW / of_nat w" using tge wpos by (simp add: divide_right_mono)
    finally show ?thesis by (simp add: \<rho>_def)
  qed
  then have \<rho>_pos: "0 < \<rho>" by (rule less_le_trans [rotated]) simp
  have "2 powi (- 1022) \<le> (1::rat) / 2 ^ 54" by (rule tiny_le)
  also have "\<dots> \<le> 1 / 2 ^ 53" by simp
  also note \<rho>_lo
  finally have er: "\<bar>r - \<rho>\<bar> \<le> \<rho> / 2 ^ 53"
    unfolding r_def by (rule double_round_error)
  have "\<rho> / 2 ^ 53 \<le> \<rho> / 2"
    using \<rho>_pos by (intro divide_left_mono) simp_all
  with er have "\<bar>r - \<rho>\<bar> \<le> \<rho> / 2" by (rule order_trans)
  then have r_lo: "\<rho> / 2 \<le> r" and r_hi: "r \<le> 2 * \<rho>"
    using \<rho>_pos by linarith+
  have "2 powi (- 1022) \<le> of_nat h * r"
  proof -
    have "(1::rat) / 2 ^ 54 \<le> \<rho> / 2" using \<rho>_lo by simp
    also have "\<dots> \<le> r" by (rule r_lo)
    also have "\<dots> \<le> of_nat h * r"
      using hge r_lo \<rho>_pos by (simp add: mult_le_cancel_right1)
    finally show ?thesis using tiny_le by (rule order_trans [rotated])
  qed
  then have ey: "\<bar>y - of_nat h * r\<bar> \<le> of_nat h * r / 2 ^ 53"
    unfolding y_def by (rule double_round_error)
  have X: "X = of_nat h * \<rho>" by (simp add: X_def \<rho>_def)
  have Xpos: "0 < X" using X hge \<rho>_pos by simp
  have "\<bar>y - X\<bar> \<le> \<bar>y - of_nat h * r\<bar> + of_nat h * \<bar>r - \<rho>\<bar>"
  proof -
    have "y - X = (y - of_nat h * r) + of_nat h * (r - \<rho>)"
      by (simp add: X algebra_simps)
    then have "\<bar>y - X\<bar> \<le> \<bar>y - of_nat h * r\<bar> + \<bar>of_nat h * (r - \<rho>)\<bar>"
      by (simp only: abs_triangle_ineq)
    then show ?thesis by (simp add: abs_mult)
  qed
  also have "\<dots> \<le> of_nat h * r / 2 ^ 53 + of_nat h * (\<rho> / 2 ^ 53)"
    using ey er hge by (intro add_mono mult_left_mono) simp_all
  also have "\<dots> \<le> of_nat h * (2 * \<rho>) / 2 ^ 53 + of_nat h * (\<rho> / 2 ^ 53)"
    using r_hi hge by (intro add_mono divide_right_mono mult_left_mono) simp_all
  also have "\<dots> = 3 * X / 2 ^ 53"
    by (simp add: X)
  also have "\<dots> < 1 / of_nat w"
  proof -
    have "(of_int (int h * tW) :: rat) < of_int (2 ^ 51)"
      using small by (simp only: of_int_less_iff)
    then have "of_nat h * of_int tW < (2 ^ 51 :: rat)" by simp
    then have "X * of_nat w < 2 ^ 51" using wpos by (simp add: X_def)
    then have "3 * X / 2 ^ 53 * of_nat w < 1" by simp
    then show ?thesis using wpos by (simp add: pos_less_divide_eq)
  qed
  finally show ?thesis by (simp add: y_def r_def \<rho>_def js_mul_def js_div_def)
qed

lemma ilog2_ge:
  assumes "0 < x" "2 powi k \<le> x"
  shows "k \<le> ilog2 x"
proof (rule ccontr)
  assume "\<not> k \<le> ilog2 x"
  then have "ilog2 x + 1 \<le> k" by simp
  then have "(2::rat) powi (ilog2 x + 1) \<le> 2 powi k"
    by (rule power_int_increasing) simp
  with ilog2_bounds(2) [OF assms(1)] assms(2) show False by linarith
qed

text \<open>Halving a double that is at least 1 is exact.\<close>

lemma powi_split: "c = a + b \<Longrightarrow> (2::rat) powi c = 2 powi a * 2 powi b"
  by (simp add: power_int_add)

lemma powi_shift: "(2::rat) powi (k + int n) = 2 ^ n * 2 powi k"
  using powi_split [of "k + int n" "int n" k] by simp

lemma double_round_halve:
  assumes x: "1 \<le> x"
  shows "double_round (double_round x / 2) = double_round x / 2"
proof -
  have pos: "0 < x" using x by simp
  define e where "e = ilog2 x"
  define m where "m = round_half_even (x / 2 powi (e - 52))"
  define v :: rat where "v = of_int m * 2 powi (e - 53)"
  have e0: "0 \<le> e" unfolding e_def using pos by (rule ilog2_ge) (simp add: x)
  then have emax: "max (ilog2 x) (- 1022) = e" by (simp add: e_def)
  have z: "double_round x = of_int m * 2 powi (e - 52)"
    by (simp add: double_round_pos [OF pos] emax m_def)
  have s1: "(2::rat) powi (e - 52) = 2 ^ 1 * 2 powi (e - 53)"
    using powi_shift [of "e - 53" 1] by simp
  have s52: "(2::rat) powi e = 2 ^ 52 * 2 powi (e - 52)"
    using powi_shift [of "e - 52" 52] by simp
  have s53: "(2::rat) powi (e + 1) = 2 ^ 53 * 2 powi (e - 52)"
    using powi_shift [of "e - 52" 53] by (simp add: add.commute)
  have t52: "(2::rat) powi (e - 1) = 2 ^ 52 * 2 powi (e - 53)"
    using powi_shift [of "e - 53" 52] by simp
  have t53: "(2::rat) powi e = 2 ^ 53 * 2 powi (e - 53)"
    using powi_shift [of "e - 53" 53] by simp
  have half: "double_round x / 2 = v"
    unfolding z v_def s1 by simp
  have "2 ^ 52 * 2 powi (e - 52) \<le> x"
    using ilog2_bounds(1) [OF pos] unfolding e_def [symmetric] s52 .
  then have "(2::rat) ^ 52 \<le> x / 2 powi (e - 52)"
    by (simp add: pos_le_divide_eq)
  then have "of_int (2 ^ 52) \<le> x / 2 powi (e - 52)" by simp
  then have mlo: "2 ^ 52 \<le> m" unfolding m_def by (rule round_half_even_ge)
  have "x < 2 ^ 53 * 2 powi (e - 52)"
    using ilog2_bounds(2) [OF pos] unfolding e_def [symmetric] s53 .
  then have "x / 2 powi (e - 52) \<le> (2::rat) ^ 53"
    by (simp add: pos_divide_le_eq)
  then have "x / 2 powi (e - 52) \<le> of_int (2 ^ 53)" by simp
  then have mhi: "m \<le> 2 ^ 53" unfolding m_def by (rule round_half_even_le)
  have mlo': "(2::rat) ^ 52 \<le> of_int m"
  proof -
    have "(of_int (2 ^ 52) :: rat) \<le> of_int m" using mlo by (simp only: of_int_le_iff)
    then show ?thesis by simp
  qed
  then have mpos: "(0::rat) < of_int m" by (rule less_le_trans [rotated]) simp
  have vpos: "0 < v" using mpos by (simp add: v_def)
  have vlo: "2 powi (e - 1) \<le> v"
    unfolding t52 v_def using mlo' by (intro mult_right_mono) simp_all
  have klo: "e - 1 \<le> ilog2 v" using vpos vlo by (rule ilog2_ge)
  show ?thesis
  proof (cases "m = 2 ^ 53")
    case True
    have ve: "v = 2 powi e"
      unfolding t53 v_def True by simp
    have "v < 2 powi (e + 1)" unfolding ve by (rule power_int_strict_increasing) simp_all
    then have "ilog2 v < e + 1" by (rule ilog2_less [OF vpos])
    moreover have "e \<le> ilog2 v" using vpos by (rule ilog2_ge) (simp add: ve)
    ultimately have k: "ilog2 v = e" by simp
    have "v / 2 powi (e - 52) = 2 ^ 52"
      unfolding ve s52 by simp
    then have q: "v / 2 powi (e - 52) = of_int (2 ^ 52)" by simp
    have "round_half_even (v / 2 powi (e - 52)) = 2 ^ 52"
      unfolding q by (rule round_half_even_of_int)
    then have "double_round v = of_int (2 ^ 52) * 2 powi (e - 52)"
      using e0 by (simp add: double_round_pos [OF vpos] k)
    also have "\<dots> = v" unfolding ve s52 by simp
    finally show ?thesis by (simp add: half)
  next
    case False
    with mhi have "m < 2 ^ 53" by simp
    then have "(of_int m :: rat) < of_int (2 ^ 53)" by (simp only: of_int_less_iff)
    then have "(of_int m :: rat) < 2 ^ 53" by simp
    then have "of_int m * 2 powi (e - 53) < (2::rat) ^ 53 * 2 powi (e - 53)"
      by (intro mult_strict_right_mono) simp_all
    then have "v < 2 powi e" unfolding t53 v_def .
    then have "ilog2 v < e" by (rule ilog2_less [OF vpos])
    with klo have k: "ilog2 v = e - 1" by simp
    have q: "v / 2 powi (e - 1 - 52) = of_int m" by (simp add: v_def)
    have "round_half_even (v / 2 powi (e - 1 - 52)) = m"
      unfolding q by (rule round_half_even_of_int)
    then have "double_round v = of_int m * 2 powi (e - 1 - 52)"
      using e0 by (simp add: double_round_pos [OF vpos] k)
    then show ?thesis by (simp add: half v_def)
  qed
qed

lemma double_round_minus: "double_round (- x) = - double_round x"
  by (simp add: double_round_def Let_def)

lemma double_round_small:
  assumes "x < 1"
  shows "double_round x \<le> 1"
proof (cases "0 < x")
  case True
  then have "double_round x \<le> of_int 1"
    using assms by (intro double_round_le_int) simp_all
  then show ?thesis by simp
next
  case False
  then have "0 \<le> double_round (- x)" by (intro double_round_nonneg) simp
  then show ?thesis by (simp add: double_round_minus)
qed

lemma canvas_width_halve:
  "double_round (max 500 (double_round v) / 2) = max 500 (double_round v) / 2"
proof (cases "500 \<le> double_round v")
  case True
  have "1 \<le> v"
  proof (rule ccontr)
    assume "\<not> 1 \<le> v"
    then have "double_round v \<le> 1" by (intro double_round_small) simp
    with True show False by simp
  qed
  then have "double_round (double_round v / 2) = double_round v / 2"
    by (rule double_round_halve)
  with True show ?thesis by (simp add: max_def)
next
  case False
  have "double_round (of_int 250) = of_int 250" by (rule double_round_of_int) simp
  with False show ?thesis by (simp add: max_def)
qed

lemma near_four_thirds:
  fixes n f Y :: rat
  assumes "\<bar>f - n / 3\<bar> \<le> n / 3 / 9007199254740992"
    and "\<bar>Y - (n + f)\<bar> \<le> (n + f) / 9007199254740992" and "1 \<le> n"
  shows "n < Y" and "\<bar>Y - (n + n / 3)\<bar> \<le> n / 2251799813685248"
proof -
  have d1: "n / 3 / 9007199254740992 = n / 27021597764222976" by simp
  have d2: "(n + f) / 9007199254740992 = n / 9007199254740992 + f / 9007199254740992"
    by (simp add: add_divide_distrib)
  from assms(1) have f: "f - n / 3 \<le> n / 27021597764222976" "n / 3 - f \<le> n / 27021597764222976"
    unfolding d1 by linarith+
  from assms(2) have y: "Y - (n + f) \<le> n / 9007199254740992 + f / 9007199254740992"
    "(n + f) - Y \<le> n / 9007199254740992 + f / 9007199254740992"
    unfolding d2 by linarith+
  show "n < Y" using f y assms(3) by linarith
  show "\<bar>Y - (n + n / 3)\<bar> \<le> n / 2251799813685248" using f y assms(3) by linarith
qed

section \<open>Target size and offset\<close>

lemma targetH_both_known:
  assumes "0 < w" "0 < h"
  shows "targetH tW \<lparr> meta_width = Some w, meta_height = Some h \<rparr>
           = \<lfloor>js_mul (of_nat h) (js_div (of_int tW) (of_nat w))\<rfloor>"
  using assms by (simp add: targetH_def ratio_def truthy_def)

lemma targetH_near_exact:
  fixes h w :: nat and tW :: int
  assumes w: "0 < w" "w < 2 ^ 53" and h: "0 < h" and tW: "0 \<le> tW"
    and small: "int h * tW < 2 ^ 51"
  shows "(int h * tW) div int w - 1 \<le> targetH tW \<lparr> meta_width = Some w, meta_height = Some h \<rparr>"
    and "targetH tW \<lparr> meta_width = Some w, meta_height = Some h \<rparr> \<le> (int h * tW) div int w"
proof -
  define y where "y = js_mul (of_nat h) (js_div (of_int tW) (of_nat w))"
  define N where "N = int h * tW"
  define F where "F = N div int w"
  have tH: "targetH tW \<lparr> meta_width = Some w, meta_height = Some h \<rparr> = \<lfloor>y\<rfloor>"
    using w h by (simp add: targetH_both_known y_def)
  have wpos: "(0::rat) < of_nat w" using w by simp
  have "F - 1 \<le> \<lfloor>y\<rfloor> \<and> \<lfloor>y\<rfloor> \<le> F"
  proof (cases "tW = 0")
    case True
    then show ?thesis
      by (simp add: y_def F_def N_def js_mul_def js_div_def double_round_def)
  next
    case False
    with tW have "0 < tW" by simp
    from scaled_height_error [OF w h this small]
    have err: "\<bar>y - of_int N / of_nat w\<bar> < 1 / of_nat w"
      by (simp add: y_def N_def)
    have Nw: "N = F * int w + N mod int w" by (simp add: F_def)
    have m: "0 \<le> N mod int w" "N mod int w \<le> int w - 1" using w by simp_all
    have "(of_int N :: rat) = of_int (F * int w + N mod int w)" using Nw by simp
    then have split: "(of_int N :: rat) / of_nat w = of_int F + of_int (N mod int w) / of_nat w"
      using wpos by (simp add: field_simps)
    have "(0::rat) \<le> of_int (N mod int w)" using m(1) by (simp only: of_int_0_le_iff)
    then have lo: "0 \<le> (of_int (N mod int w) :: rat) / of_nat w"
      using wpos by simp
    have "(of_int (N mod int w) :: rat) \<le> of_int (int w - 1)"
      using m(2) by (simp only: of_int_le_iff)
    then have "(of_int (N mod int w) :: rat) / of_nat w \<le> of_int (int w - 1) / of_nat w"
      using wpos by (simp add: divide_right_mono)
    also have "\<dots> = 1 - 1 / of_nat w" using wpos by (simp add: field_simps)
    finally have hi: "(of_int (N mod int w) :: rat) / of_nat w \<le> 1 - 1 / of_nat w" .
    have w1: "1 / (of_nat w :: rat) \<le> 1" using w by simp
    have "y < of_int F + 1" using err split hi by linarith
    then have "y < of_int (F + 1)" by simp
    then have "\<lfloor>y\<rfloor> < F + 1" by (simp only: floor_less_iff)
    then have up: "\<lfloor>y\<rfloor> \<le> F" by simp
    have "of_int F - 1 \<le> y" using err split lo w1 by linarith
    then have "of_int (F - 1) \<le> y" by simp
    then have "F - 1 \<le> \<lfloor>y\<rfloor>" by (simp only: le_floor_iff)
    with up show ?thesis by simp
  qed
  then show "(int h * tW) div int w - 1 \<le> targetH tW \<lparr> meta_width = Some w, meta_height = Some h \<rparr>"
    and "targetH tW \<lparr> meta_width = Some w, meta_height = Some h \<rparr> \<le> (int h * tW) div int w"
    by (simp_all add: tH F_def N_def)
qed

lemma targetW_nonneg: "0 \<le> scale \<Longrightarrow> 0 \<le> targetW baseWidth scale"
  by (simp add: targetW_def js_mul_def double_round_nonneg)

lemma targetW_le_base:
  assumes "0 < baseWidth" "baseWidth < 2 ^ 53" "0 < scale" "scale \<le> 1"
  shows "targetW baseWidth scale \<le> int baseWidth"
proof -
  have x: "0 < of_nat baseWidth * scale" using assms by simp
  have le: "of_nat baseWidth * scale \<le> of_int (int baseWidth)"
    using assms by (simp add: mult_left_le)
  have "int baseWidth < 2 ^ 53"
  proof -
    have "int baseWidth < int (2 ^ 53)" using assms(2) by (simp only: of_nat_less_iff)
    then show ?thesis by simp
  qed
  with x le have "double_round (of_nat baseWidth * scale) \<le> of_int (int baseWidth)"
    by (rule double_round_le_int)
  then have "\<lfloor>double_round (of_nat baseWidth * scale)\<rfloor> \<le> int baseWidth"
    by (simp add: floor_le_iff)
  then show ?thesis by (simp add: targetW_def js_mul_def)
qed

lemma applyWatermark_chain:
  assumes "file_metadata eng inputPath = Inr (bw, bh)"
    and "buffer_metadata eng buf = Inr wmMeta"
    and "applyWatermark eng inputPath buf scale position opacity fmt outPath isText = Inr out"
  shows "out =
           (if fmt = js ''jpg'' \<or> fmt = js ''jpeg'' then Jpeg 95 else Png)
             (Composite
                (Png (processedWatermark (Png (EnsureAlpha (FromBuffer buf)))
                       (targetW bw scale) (targetH (targetW bw scale) wmMeta) isText opacity))
                (Some (snd (offset position bw bh (targetW bw scale)
                              (targetH (targetW bw scale) wmMeta)),
                       fst (offset position bw bh (targetW bw scale)
                              (targetH (targetW bw scale) wmMeta))))
                Over (FromFile inputPath))"
proof -
  obtain left top where o: "offset position bw bh (targetW bw scale)
      (targetH (targetW bw scale) wmMeta) = (left, top)"
    by (cases "offset position bw bh (targetW bw scale) (targetH (targetW bw scale) wmMeta)")
  show ?thesis
    using assms(3)
    unfolding applyWatermark_def assms(1) assms(2) Let_def
    by (auto simp add: o split: option.splits if_splits)
qed

text \<open>
  Claim C3. For a positive base width (below \<open>2^53\<close>, as every image width is) and
  a scale in \<open>(0, 1]\<close>, the target width is at most the base width; with the anchor
  \<open>center\<close> the horizontal offset is non-negative whenever the target width is at most
  the base width; with the anchor \<open>bottom-right\<close> offset plus target size is the base
  size, in both directions.
\<close>

theorem targetW_within_base:
  assumes "0 < baseWidth" "baseWidth < 2 ^ 53" "0 < scale" "scale \<le> 1"
  shows "targetW baseWidth scale \<le> int baseWidth
    \<and> (tW \<le> int baseWidth \<longrightarrow> 0 \<le> fst (offset (js ''center'') baseWidth baseHeight tW tH))
    \<and> 0 \<le> fst (offset (js ''center'') baseWidth baseHeight (targetW baseWidth scale) tH)
    \<and> fst (offset (js ''bottom-right'') baseWidth baseHeight tW tH) + tW = int baseWidth
    \<and> snd (offset (js ''bottom-right'') baseWidth baseHeight tW tH) + tH = int baseHeight"
proof -
  have le: "targetW baseWidth scale \<le> int baseWidth"
    using assms by (rule targetW_le_base)
  have c: "fst (offset (js ''center'') baseWidth baseHeight t tH) = (int baseWidth - t) div 2" for t
    by (simp add: offset_def js_def)
  have br: "offset (js ''bottom-right'') baseWidth baseHeight tW tH
              = (int baseWidth - tW, int baseHeight - tH)"
    by (simp add: offset_def js_def)
  show ?thesis using le by (simp add: c br)
qed

theorem targetW_within_base_witness:
  "(0::nat) < 1000 \<and> (1000::nat) < 2 ^ 53 \<and> 0 < literal (7 / 10) \<and> literal (7 / 10) \<le> 1
   \<and> targetW 1000 (literal (7 / 10)) = 700
   \<and> targetW 1000 (literal (7 / 10)) \<le> 1000
   \<and> (700::int) \<le> int 1000
   \<and> 0 \<le> fst (offset (js ''center'') 1000 800 700 350)
   \<and> fst (offset (js ''bottom-right'') 1000 800 700 350) + 700 = 1000
   \<and> snd (offset (js ''bottom-right'') 1000 800 700 350) + 350 = 800"
proof -
  have l: "literal (7 / 10) = 3152519739159347 / 4503599627370496" by code_simp
  have "double_round (1000 * (3152519739159347 / 4503599627370496)) = 700" by code_simp
  then have t: "targetW 1000 (literal (7 / 10)) = 700"
    by (simp add: targetW_def js_mul_def l)
  have h: "(0::nat) < 1000" "(1000::nat) < 2 ^ 53" "0 < literal (7 / 10)" "literal (7 / 10) \<le> 1"
    by (simp_all add: l)
  note inst = targetW_within_base [OF h, of 700 800 350]
  have "targetW 1000 (literal (7 / 10)) \<le> int 1000"
    and "0 \<le> fst (offset (js ''center'') 1000 800 700 350)"
    and "fst (offset (js ''bottom-right'') 1000 800 700 350) + 700 = int 1000"
    and "snd (offset (js ''bottom-right'') 1000 800 700 350) + 350 = int 800"
    using inst by simp_all
  then show ?thesis using t h by simp
qed

lemma half_floor: "\<lfloor>(of_int n :: rat) / 2\<rfloor> = n div 2"
  using floor_divide_of_int_eq [of n 2, where ?'a = rat] by simp

lemma offset_center:
  "offset (js ''center'') bw bh tW tH = ((int bw - tW) div 2, (int bh - tH) div 2)"
  by (simp add: offset_def js_def)

lemma offset_default:
  assumes "position \<notin> set [js ''top-left'', js ''top-right'', js ''bottom-left'',
                            js ''bottom-right'']"
  shows "offset position bw bh tW tH = ((int bw - tW) div 2, (int bh - tH) div 2)"
  using assms by (simp add: offset_def)

lemma literal_half: "literal (1 / 2) = 1 / 2"
  by code_simp

lemma targetW_scenario_A: "targetW 1000 (literal (1 / 2)) = 500"
proof -
  have "double_round 500 = 500" by code_simp
  then show ?thesis by (simp add: targetW_def js_mul_def literal_half)
qed

text \<open>
  Claim C2. The offset is \<open>(0, 0)\<close> for \<open>top-left\<close>, \<open>(baseWidth - targetW, 0)\<close> for
  \<open>top-right\<close>, \<open>(0, baseHeight - targetH)\<close> for \<open>bottom-left\<close>,
  \<open>(baseWidth - targetW, baseHeight - targetH)\<close> for \<open>bottom-right\<close>, and the floors of
  the halved differences for \<open>center\<close> and for every position that is none of the
  other four. For a base of 1000 by 800, scale 0.5 and \<open>top-right\<close>, the target width is
  500 and the offset is \<open>(500, 0)\<close>.
\<close>

theorem offset_by_anchor:
  "offset (js ''top-left'') bw bh tW tH = (0, 0)
   \<and> offset (js ''top-right'') bw bh tW tH = (int bw - tW, 0)
   \<and> offset (js ''bottom-left'') bw bh tW tH = (0, int bh - tH)
   \<and> offset (js ''bottom-right'') bw bh tW tH = (int bw - tW, int bh - tH)
   \<and> offset (js ''center'') bw bh tW tH
       = (\<lfloor>(of_int (int bw - tW) :: rat) / 2\<rfloor>, \<lfloor>(of_int (int bh - tH) :: rat) / 2\<rfloor>)
   \<and> (position \<notin> set [js ''top-left'', js ''top-right'', js ''bottom-left'',
                         js ''bottom-right'']
        \<longrightarrow> offset position bw bh tW tH
            = (\<lfloor>(of_int (int bw - tW) :: rat) / 2\<rfloor>, \<lfloor>(of_int (int bh - tH) :: rat) / 2\<rfloor>))
   \<and> targetW 1000 (literal (5 / 10)) = 500
   \<and> offset (js ''top-right'') 1000 800 (targetW 1000 (literal (5 / 10))) tH = (500, 0)"
proof -
  have corners:
    "offset (js ''top-left'') bw bh tW tH = (0, 0)"
    "offset (js ''top-right'') bw bh tW tH = (int bw - tW, 0)"
    "offset (js ''bottom-left'') bw bh tW tH = (0, int bh - tH)"
    "offset (js ''bottom-right'') bw bh tW tH = (int bw - tW, int bh - tH)"
    by (simp_all add: offset_def js_def)
  have t: "targetW 1000 (literal (5 / 10)) = 500"
    by (simp add: targetW_scenario_A)
  have a: "offset (js ''top-right'') 1000 800 (targetW 1000 (literal (5 / 10))) tH = (500, 0)"
    by (simp add: targetW_scenario_A offset_def js_def)
  have center: "offset (js ''center'') bw bh tW tH
       = (\<lfloor>(of_int (int bw - tW) :: rat) / 2\<rfloor>, \<lfloor>(of_int (int bh - tH) :: rat) / 2\<rfloor>)"
    by (simp only: half_floor offset_center)
  have other: "offset position bw bh tW tH
       = (\<lfloor>(of_int (int bw - tW) :: rat) / 2\<rfloor>, \<lfloor>(of_int (int bh - tH) :: rat) / 2\<rfloor>)"
    if "position \<notin> set [js ''top-left'', js ''top-right'', js ''bottom-left'',
                         js ''bottom-right'']"
    using offset_default [OF that, of bw bh tW tH] by (simp only: half_floor)
  show ?thesis
    using corners center other t a by blast
qed

theorem offset_by_anchor_witness:
  "js ''middle'' \<notin> set [js ''top-left'', js ''top-right'', js ''bottom-left'', js ''bottom-right'']
   \<and> offset (js ''middle'') 1000 800 500 250 = (250, 275)
   \<and> offset (js ''center'') 1001 800 500 251 = (250, 274)
   \<and> offset (js ''top-right'') 1000 800 500 250 = (500, 0)"
proof -
  have m: "js ''middle'' \<notin> set [js ''top-left'', js ''top-right'', js ''bottom-left'',
      js ''bottom-right'']"
    by (simp add: js_def)
  have f: "\<lfloor>(of_int (int 1000 - 500) :: rat) / 2\<rfloor> = 250"
    "\<lfloor>(of_int (int 800 - 250) :: rat) / 2\<rfloor> = 275"
    "\<lfloor>(of_int (int 1001 - 500) :: rat) / 2\<rfloor> = 250"
    "\<lfloor>(of_int (int 800 - 251) :: rat) / 2\<rfloor> = 274"
    by (simp_all only: half_floor)
  from offset_by_anchor [of 1000 800 500 250 "js ''middle''"] m
  have "offset (js ''middle'') 1000 800 500 250
          = (\<lfloor>(of_int (int 1000 - 500) :: rat) / 2\<rfloor>, \<lfloor>(of_int (int 800 - 250) :: rat) / 2\<rfloor>)"
    and "offset (js ''top-right'') 1000 800 500 250 = (int 1000 - 500, 0)"
    by blast+
  then have 1: "offset (js ''middle'') 1000 800 500 250 = (250, 275)"
    and 2: "offset (js ''top-right'') 1000 800 500 250 = (500, 0)"
    by (simp_all only: f) simp_all
  from offset_by_anchor [of 1001 800 500 251 "js ''middle''"]
  have "offset (js ''center'') 1001 800 500 251
          = (\<lfloor>(of_int (int 1001 - 500) :: rat) / 2\<rfloor>, \<lfloor>(of_int (int 800 - 251) :: rat) / 2\<rfloor>)"
    by blast
  then have 3: "offset (js ''center'') 1001 800 500 251 = (250, 274)"
    by (simp only: f)
  show ?thesis using m 1 2 3 by simp
qed

lemma targetH_width_unknown:
  assumes "0 < h" "h < 2 ^ 53" "mw = None \<or> mw = Some 0"
  shows "targetH tW \<lparr> meta_width = mw, meta_height = Some h \<rparr> = int h"
proof -
  have "\<bar>int h\<bar> < 2 ^ 53"
  proof -
    have "int h < int (2 ^ 53)" using assms(2) by (simp only: of_nat_less_iff)
    then show ?thesis by simp
  qed
  then have "double_round (of_int (int h)) = of_int (int h)" by (rule double_round_of_int)
  then have "\<lfloor>double_round (of_nat h)\<rfloor> = int h" by simp
  then show ?thesis
    using assms by (auto simp add: targetH_def ratio_def truthy_def js_mul_def)
qed

lemma targetH_height_unknown:
  assumes "mh = None \<or> mh = Some 0"
  shows "targetH tW \<lparr> meta_width = mw, meta_height = mh \<rparr>
           = \<lfloor>js_mul (of_int tW) (literal (5 / 10))\<rfloor>"
  using assms by (auto simp add: targetH_def truthy_def)

lemma processedWatermark_cases:
  "processedWatermark wm tW tH isText opacity = Resize tW tH wm
   \<or> processedWatermark wm tW tH isText opacity
       = Composite (Png (Create \<lparr> solid_width = tW, solid_height = tH, solid_channels = 4,
                                   solid_r = 255, solid_g = 255, solid_b = 255,
                                   solid_alpha = opacity \<rparr>))
                   None DestIn (Resize tW tH wm)"
  by (simp add: processedWatermark_def Let_def)

lemma targetH_244: "targetH 500 \<lparr> meta_width = Some 244, meta_height = Some 244 \<rparr> = 499"
proof -
  have "\<lfloor>double_round (244 * double_round (125 / 61))\<rfloor> = (499::int)" by code_simp
  then show ?thesis
    by (simp add: targetH_def ratio_def truthy_def js_mul_def js_div_def)
qed

text \<open>
  The height formula of claim C1 fails on the code. A base image 1000 wide with scale 0.5
  gives the target width 500; a square watermark of 244 by 244 is then resized to 500 by
  499, not to \<open>floor(244 * 500 / 244) = 500\<close>, because the ratio \<open>500 / 244\<close> is rounded
  to a double before it is multiplied by the height. And a watermark whose width is
  unknown while its height is 100 keeps the height 100; it does not fall back to
  \<open>floor(500 * 0.5) = 250\<close>.
\<close>

theorem targetH_formula_counterexample:
  "targetW 1000 (literal (5 / 10)) = 500
   \<and> targetH 500 \<lparr> meta_width = Some 244, meta_height = Some 244 \<rparr> = 499
   \<and> targetH 500 \<lparr> meta_width = Some 244, meta_height = Some 244 \<rparr>
       \<noteq> \<lfloor>(244 * 500 / 244 :: rat)\<rfloor>
   \<and> targetH 500 \<lparr> meta_width = None, meta_height = Some 100 \<rparr> = 100
   \<and> targetH 500 \<lparr> meta_width = None, meta_height = Some 100 \<rparr>
       \<noteq> \<lfloor>js_mul 500 (literal (5 / 10))\<rfloor>"
proof -
  have u: "targetH 500 \<lparr> meta_width = None, meta_height = Some 100 \<rparr> = 100"
    using targetH_width_unknown [of 100 None 500] by simp
  have "double_round 250 = 250" by code_simp
  then have f: "\<lfloor>js_mul 500 (literal (1 / 2))\<rfloor> = 250"
    by (simp add: js_mul_def literal_half)
  show ?thesis
    by (simp add: targetW_scenario_A targetH_244 u f)
qed

text \<open>
  Claim C1, amended. For a base image and a watermark that \<open>applyWatermark\<close> processes,
  the watermark is resized to \<open>targetW\<close> by \<open>targetH\<close>, where \<open>targetW\<close> is the floor of
  base width times scale (a double multiplication). When the source height is known and
  not zero, \<open>targetH\<close> is the floor of the source height times the ratio, the ratio being
  \<open>targetW / sourceWidth\<close> rounded to a double when the source width is known and not
  zero, and 1 otherwise (the height is then the source height). With both dimensions
  known, \<open>targetH\<close> is \<open>floor(sourceHeight * targetW / sourceWidth)\<close> or one less (for
  dimensions whose product stays below \<open>2^51\<close>). When the source height is unknown or
  zero, \<open>targetH\<close> is \<open>floor(targetW * 0.5)\<close>.
\<close>

theorem target_size:
  assumes "file_metadata eng inputPath = Inr (bw, bh)"
    and "buffer_metadata eng buf = Inr \<lparr> meta_width = mw, meta_height = mh \<rparr>"
    and "applyWatermark eng inputPath buf scale position opacity fmt outPath isText = Inr out"
  defines "tW \<equiv> targetW bw scale"
  defines "tH \<equiv> targetH tW \<lparr> meta_width = mw, meta_height = mh \<rparr>"
  defines "watermark \<equiv> Png (EnsureAlpha (FromBuffer buf))"
  shows "out = (if fmt = js ''jpg'' \<or> fmt = js ''jpeg'' then Jpeg 95 else Png)
                 (Composite (Png (processedWatermark watermark tW tH isText opacity))
                    (Some (snd (offset position bw bh tW tH), fst (offset position bw bh tW tH)))
                    Over (FromFile inputPath))
    \<and> (processedWatermark watermark tW tH isText opacity = Resize tW tH watermark
       \<or> processedWatermark watermark tW tH isText opacity
           = Composite (Png (Create \<lparr> solid_width = tW, solid_height = tH, solid_channels = 4,
                                       solid_r = 255, solid_g = 255, solid_b = 255,
                                       solid_alpha = opacity \<rparr>))
                       None DestIn (Resize tW tH watermark))
    \<and> tW = \<lfloor>js_mul (of_nat bw) scale\<rfloor>
    \<and> (mh = Some h \<and> 0 < h \<and> mw = Some w \<and> 0 < w
         \<longrightarrow> tH = \<lfloor>js_mul (of_nat h) (js_div (of_int tW) (of_nat w))\<rfloor>)
    \<and> (mh = Some h \<and> 0 < h \<and> mw = Some w \<and> 0 < w \<and> w < 2 ^ 53 \<and> 0 \<le> scale
          \<and> int h * tW < 2 ^ 51
         \<longrightarrow> (int h * tW) div int w - 1 \<le> tH \<and> tH \<le> (int h * tW) div int w)
    \<and> (mh = Some h \<and> 0 < h \<and> h < 2 ^ 53 \<and> (mw = None \<or> mw = Some 0) \<longrightarrow> tH = int h)
    \<and> (mh = None \<or> mh = Some 0 \<longrightarrow> tH = \<lfloor>js_mul (of_int tW) (literal (5 / 10))\<rfloor>)"
proof -
  have chain: "out = (if fmt = js ''jpg'' \<or> fmt = js ''jpeg'' then Jpeg 95 else Png)
                 (Composite (Png (processedWatermark watermark tW tH isText opacity))
                    (Some (snd (offset position bw bh tW tH), fst (offset position bw bh tW tH)))
                    Over (FromFile inputPath))"
    unfolding tW_def tH_def watermark_def using assms(1-3) by (rule applyWatermark_chain)
  have width: "tW = \<lfloor>js_mul (of_nat bw) scale\<rfloor>"
    by (simp add: tW_def targetW_def)
  have both: "tH = \<lfloor>js_mul (of_nat h) (js_div (of_int tW) (of_nat w))\<rfloor>"
    if "mh = Some h \<and> 0 < h \<and> mw = Some w \<and> 0 < w"
    using that by (simp add: tH_def targetH_both_known)
  have near: "(int h * tW) div int w - 1 \<le> tH \<and> tH \<le> (int h * tW) div int w"
    if "mh = Some h \<and> 0 < h \<and> mw = Some w \<and> 0 < w \<and> w < 2 ^ 53 \<and> 0 \<le> scale
          \<and> int h * tW < 2 ^ 51"
  proof -
    from that have "0 \<le> tW" by (simp add: tW_def targetW_nonneg)
    with that show ?thesis
      using targetH_near_exact [of w h tW] by (simp add: tH_def)
  qed
  have wunknown: "tH = int h"
    if "mh = Some h \<and> 0 < h \<and> h < 2 ^ 53 \<and> (mw = None \<or> mw = Some 0)"
    using that targetH_width_unknown [of h mw tW] by (simp add: tH_def)
  have hunknown: "tH = \<lfloor>js_mul (of_int tW) (literal (5 / 10))\<rfloor>"
    if "mh = None \<or> mh = Some 0"
    using that unfolding tH_def by (rule targetH_height_unknown)
  show ?thesis
    using chain processedWatermark_cases [of watermark tW tH isText opacity]
      width both near wunknown hunknown
    by blast
qed

lemma applyWatermark_rendered:
  assumes "file_metadata eng inputPath = Inr (bw, bh)"
    and "buffer_metadata eng buf = Inr wmMeta"
    and "\<And>chain. to_file eng chain outPath = None"
  shows "\<exists>out. applyWatermark eng inputPath buf scale position opacity fmt outPath isText = Inr out"
proof -
  obtain left top where o: "offset position bw bh (targetW bw scale)
      (targetH (targetW bw scale) wmMeta) = (left, top)"
    by (cases "offset position bw bh (targetW bw scale) (targetH (targetW bw scale) wmMeta)")
  show ?thesis
    unfolding applyWatermark_def assms(1) assms(2) Let_def
    by (simp add: o assms(3))
qed

theorem target_size_witness:
  "(\<exists>out. applyWatermark
      \<lparr> file_metadata = (\<lambda>p. Inr (1000, 800)),
        buffer_metadata = (\<lambda>b. Inr \<lparr> meta_width = Some 244, meta_height = Some 244 \<rparr>),
        to_file = (\<lambda>chain p. None) \<rparr>
      (js ''/photos/a.png'') [] (literal (5 / 10)) (js ''center'') (1 / 2) (js ''png'')
      (js ''/photos/a_watermarked.png'') False = Inr out)
   \<and> targetW 1000 (literal (5 / 10)) = 500
   \<and> targetH 500 \<lparr> meta_width = Some 244, meta_height = Some 244 \<rparr>
       = \<lfloor>js_mul 244 (js_div 500 244)\<rfloor>
   \<and> (int 244 * 500) div int 244 - 1 \<le> targetH 500 \<lparr> meta_width = Some 244, meta_height = Some 244 \<rparr>
   \<and> targetH 500 \<lparr> meta_width = Some 244, meta_height = Some 244 \<rparr> \<le> (int 244 * 500) div int 244
   \<and> targetH 500 \<lparr> meta_width = None, meta_height = Some 100 \<rparr> = 100
   \<and> targetH 500 \<lparr> meta_width = Some 244, meta_height = None \<rparr>
       = \<lfloor>js_mul 500 (literal (5 / 10))\<rfloor>"
proof -
  define E where "E mw mh =
      \<lparr> file_metadata = (\<lambda>p. Inr (1000, 800)),
        buffer_metadata = (\<lambda>b. Inr \<lparr> meta_width = mw, meta_height = mh \<rparr>),
        to_file = (\<lambda>chain p. None) \<rparr>" for mw mh :: "nat option"
  have fm: "file_metadata (E mw mh) (js ''/photos/a.png'') = Inr (1000, 800)" for mw mh
    by (simp add: E_def)
  have bm: "buffer_metadata (E mw mh) [] = Inr \<lparr> meta_width = mw, meta_height = mh \<rparr>" for mw mh
    by (simp add: E_def)
  have run: "\<exists>out. applyWatermark (E mw mh) (js ''/photos/a.png'') [] (literal (5 / 10))
      (js ''center'') (1 / 2) (js ''png'') (js ''/photos/a_watermarked.png'') False = Inr out"
    for mw mh
    using fm bm by (rule applyWatermark_rendered) (simp add: E_def)
  have t: "targetW 1000 (literal (5 / 10)) = 500"
    by (simp add: targetW_scenario_A)
  have s: "(0::rat) \<le> literal (1 / 2)" by (simp add: literal_half)
  obtain out1 where r1: "applyWatermark (E (Some 244) (Some 244)) (js ''/photos/a.png'') []
      (literal (5 / 10)) (js ''center'') (1 / 2) (js ''png'') (js ''/photos/a_watermarked.png'')
      False = Inr out1"
    using run by blast
  have both: "targetH 500 \<lparr> meta_width = Some 244, meta_height = Some 244 \<rparr>
       = \<lfloor>js_mul 244 (js_div 500 244)\<rfloor>"
    using target_size [OF fm bm r1, of 244 244, THEN conjunct2, THEN conjunct2, THEN conjunct2,
        THEN conjunct1]
    by (simp add: targetW_scenario_A)
  have near: "(int 244 * 500) div int 244 - 1
        \<le> targetH 500 \<lparr> meta_width = Some 244, meta_height = Some 244 \<rparr>
      \<and> targetH 500 \<lparr> meta_width = Some 244, meta_height = Some 244 \<rparr>
        \<le> (int 244 * 500) div int 244"
    using target_size [OF fm bm r1, of 244 244, THEN conjunct2, THEN conjunct2, THEN conjunct2,
        THEN conjunct2, THEN conjunct1] s
    by (simp add: targetW_scenario_A)
  obtain out2 where r2: "applyWatermark (E None (Some 100)) (js ''/photos/a.png'') []
      (literal (5 / 10)) (js ''center'') (1 / 2) (js ''png'') (js ''/photos/a_watermarked.png'')
      False = Inr out2"
    using run by blast
  have wu: "targetH 500 \<lparr> meta_width = None, meta_height = Some 100 \<rparr> = 100"
    using target_size [OF fm bm r2, of 100 0, THEN conjunct2, THEN conjunct2, THEN conjunct2,
        THEN conjunct2, THEN conjunct2, THEN conjunct1]
    by (simp add: targetW_scenario_A)
  obtain out3 where r3: "applyWatermark (E (Some 244) None) (js ''/photos/a.png'') []
      (literal (5 / 10)) (js ''center'') (1 / 2) (js ''png'') (js ''/photos/a_watermarked.png'')
      False = Inr out3"
    using run by blast
  have hu: "targetH 500 \<lparr> meta_width = Some 244, meta_height = None \<rparr>
       = \<lfloor>js_mul 500 (literal (5 / 10))\<rfloor>"
    using target_size [OF fm bm r3, of 0 0, THEN conjunct2, THEN conjunct2, THEN conjunct2,
        THEN conjunct2, THEN conjunct2, THEN conjunct2]
    by (simp add: targetW_scenario_A)
  show ?thesis
    using run [of "Some 244" "Some 244"] t both near wu hu
    unfolding E_def by blast
qed

section \<open>Opacity\<close>

lemma processedWatermark_image:
  "processedWatermark watermark tW tH False opacity =
     (if opacity < 1
      then Composite (Png (Create \<lparr> solid_width = tW, solid_height = tH, solid_channels = 4,
                                     solid_r = 255, solid_g = 255, solid_b = 255,
                                     solid_alpha = opacity \<rparr>))
                     None DestIn (Resize tW tH watermark)
      else Resize tW tH watermark)"
  by (simp add: processedWatermark_def Let_def)

lemma processedWatermark_text:
  "processedWatermark watermark tW tH True opacity = Resize tW tH watermark"
  by (simp add: processedWatermark_def Let_def)

lemma svgBuffer_fill_opacity: "css_fill_opacity (svgBuffer textOpts opacity) = opacity"
  by (simp add: svgBuffer_def createTextWatermarkSVG_def Let_def)

text \<open>
  Claim C4. For an image watermark the resized watermark goes through a \<open>dest-in\<close>
  composite with a solid layer of the target size and alpha \<open>opacity\<close> exactly when
  \<open>opacity < 1\<close>, and the composite is applied to the result of the resize; for a text
  watermark the resized watermark is used as it is, whatever the opacity, and the opacity
  is the \<open>fill-opacity\<close> of the generated SVG. The watermark that \<open>applyWatermark\<close> lays
  over the base image is the PNG of that chain.
\<close>

theorem opacity_by_kind:
  "processedWatermark watermark tW tH False opacity =
     (if opacity < 1
      then Composite (Png (Create \<lparr> solid_width = tW, solid_height = tH, solid_channels = 4,
                                     solid_r = 255, solid_g = 255, solid_b = 255,
                                     solid_alpha = opacity \<rparr>))
                     None DestIn (Resize tW tH watermark)
      else Resize tW tH watermark)
   \<and> ((\<exists>overlay. processedWatermark watermark tW tH isText opacity
                     = Composite overlay None DestIn (Resize tW tH watermark))
        \<longleftrightarrow> \<not> isText \<and> opacity < 1)
   \<and> processedWatermark watermark tW tH True opacity = Resize tW tH watermark
   \<and> css_fill_opacity (svgBuffer textOpts opacity) = opacity
   \<and> (file_metadata eng inputPath = Inr (bw, bh) \<and> buffer_metadata eng buf = Inr wmMeta
        \<and> applyWatermark eng inputPath buf scale position opacity fmt outPath isText = Inr out
        \<longrightarrow> out = (if fmt = js ''jpg'' \<or> fmt = js ''jpeg'' then Jpeg 95 else Png)
                    (Composite
                       (Png (processedWatermark (Png (EnsureAlpha (FromBuffer buf)))
                              (targetW bw scale) (targetH (targetW bw scale) wmMeta)
                              isText opacity))
                       (Some (snd (offset position bw bh (targetW bw scale)
                                     (targetH (targetW bw scale) wmMeta)),
                              fst (offset position bw bh (targetW bw scale)
                                     (targetH (targetW bw scale) wmMeta))))
                       Over (FromFile inputPath)))"
proof -
  have iff: "(\<exists>overlay. processedWatermark watermark tW tH isText opacity
                     = Composite overlay None DestIn (Resize tW tH watermark))
        \<longleftrightarrow> \<not> isText \<and> opacity < 1"
    by (cases isText) (simp_all add: processedWatermark_def Let_def)
  show ?thesis
    using processedWatermark_image [of watermark tW tH opacity] iff
      processedWatermark_text [of watermark tW tH opacity]
      svgBuffer_fill_opacity [of textOpts opacity]
      applyWatermark_chain [of eng inputPath bw bh buf wmMeta scale position opacity fmt
        outPath isText out]
    by blast
qed

theorem opacity_by_kind_witness:
  "processedWatermark (Png (EnsureAlpha (FromBuffer []))) 500 250 False (1 / 2)
     = Composite (Png (Create \<lparr> solid_width = 500, solid_height = 250, solid_channels = 4,
                                  solid_r = 255, solid_g = 255, solid_b = 255,
                                  solid_alpha = 1 / 2 \<rparr>))
                 None DestIn (Resize 500 250 (Png (EnsureAlpha (FromBuffer []))))
   \<and> processedWatermark (Png (EnsureAlpha (FromBuffer []))) 500 250 False 1
     = Resize 500 250 (Png (EnsureAlpha (FromBuffer [])))
   \<and> processedWatermark (Png (EnsureAlpha (FromBuffer []))) 500 250 True (1 / 2)
     = Resize 500 250 (Png (EnsureAlpha (FromBuffer [])))
   \<and> css_fill_opacity (svgBuffer
         \<lparr> o_text = js ''Sample'', o_fontFamily = js ''Arial'', o_fontSize = 48,
           o_color = js ''#FFFFFF'', o_bold = False, o_italic = False, o_opacity = 0 \<rparr>
         (1 / 2)) = 1 / 2
   \<and> (\<exists>out. applyWatermark
          \<lparr> file_metadata = (\<lambda>p. Inr (1000, 800)),
            buffer_metadata = (\<lambda>b. Inr \<lparr> meta_width = Some 244, meta_height = Some 244 \<rparr>),
            to_file = (\<lambda>chain p. None) \<rparr>
          (js ''/photos/a.png'') [] (literal (5 / 10)) (js ''center'') (1 / 2) (js ''png'')
          (js ''/photos/a_watermarked.png'') False = Inr out
        \<and> out = Png (Composite
                (Png (Composite
                       (Png (Create \<lparr> solid_width = 500, solid_height = 499,
                                       solid_channels = 4, solid_r = 255, solid_g = 255,
                                       solid_b = 255, solid_alpha = 1 / 2 \<rparr>))
                       None DestIn (Resize 500 499 (Png (EnsureAlpha (FromBuffer []))))))
                (Some (150, 250)) Over (FromFile (js ''/photos/a.png''))))"
proof -
  define E where "E =
      \<lparr> file_metadata = (\<lambda>p. Inr (1000, 800)),
        buffer_metadata = (\<lambda>b. Inr \<lparr> meta_width = Some 244, meta_height = Some 244 \<rparr>),
        to_file = (\<lambda>chain p. None) \<rparr>"
  have fm: "file_metadata E (js ''/photos/a.png'') = Inr (1000, 800)"
    and bm: "buffer_metadata E [] = Inr \<lparr> meta_width = Some 244, meta_height = Some 244 \<rparr>"
    by (simp_all add: E_def)
  have "\<exists>out. applyWatermark E (js ''/photos/a.png'') [] (literal (5 / 10))
      (js ''center'') (1 / 2) (js ''png'') (js ''/photos/a_watermarked.png'') False = Inr out"
    using fm bm by (rule applyWatermark_rendered) (simp add: E_def)
  then obtain out where run: "applyWatermark E (js ''/photos/a.png'') [] (literal (5 / 10))
      (js ''center'') (1 / 2) (js ''png'') (js ''/photos/a_watermarked.png'') False = Inr out"
    by blast
  have "out = (if js ''png'' = js ''jpg'' \<or> js ''png'' = js ''jpeg'' then Jpeg 95 else Png)
      (Composite
         (Png (processedWatermark (Png (EnsureAlpha (FromBuffer [])))
                (targetW 1000 (literal (5 / 10)))
                (targetH (targetW 1000 (literal (5 / 10)))
                   \<lparr> meta_width = Some 244, meta_height = Some 244 \<rparr>)
                False (1 / 2)))
         (Some (snd (offset (js ''center'') 1000 800 (targetW 1000 (literal (5 / 10)))
                       (targetH (targetW 1000 (literal (5 / 10)))
                          \<lparr> meta_width = Some 244, meta_height = Some 244 \<rparr>)),
                fst (offset (js ''center'') 1000 800 (targetW 1000 (literal (5 / 10)))
                       (targetH (targetW 1000 (literal (5 / 10)))
                          \<lparr> meta_width = Some 244, meta_height = Some 244 \<rparr>))))
         Over (FromFile (js ''/photos/a.png'')))"
    using opacity_by_kind [of "Png (EnsureAlpha (FromBuffer []))" 500 250 "1 / 2" False
        undefined E "js ''/photos/a.png''" 1000 800 "[]"
        "\<lparr> meta_width = Some 244, meta_height = Some 244 \<rparr>" "literal (5 / 10)"
        "js ''center''" "js ''png''" "js ''/photos/a_watermarked.png''" out]
      fm bm run
    by blast
  then have chain: "out = Png (Composite
                (Png (Composite
                       (Png (Create \<lparr> solid_width = 500, solid_height = 499,
                                       solid_channels = 4, solid_r = 255, solid_g = 255,
                                       solid_b = 255, solid_alpha = 1 / 2 \<rparr>))
                       None DestIn (Resize 500 499 (Png (EnsureAlpha (FromBuffer []))))))
                (Some (150, 250)) Over (FromFile (js ''/photos/a.png'')))"
    by (simp add: targetW_scenario_A targetH_244 processedWatermark_image offset_center)
       (simp add: js_def)
  note half = opacity_by_kind [of "Png (EnsureAlpha (FromBuffer []))" 500 250 "1 / 2" True
      "\<lparr> o_text = js ''Sample'', o_fontFamily = js ''Arial'', o_fontSize = 48,
           o_color = js ''#FFFFFF'', o_bold = False, o_italic = False, o_opacity = 0 \<rparr>"]
  note full = opacity_by_kind [of "Png (EnsureAlpha (FromBuffer []))" 500 250 1 True]
  have a: "processedWatermark (Png (EnsureAlpha (FromBuffer []))) 500 250 False (1 / 2)
     = Composite (Png (Create \<lparr> solid_width = 500, solid_height = 250, solid_channels = 4,
                                  solid_r = 255, solid_g = 255, solid_b = 255,
                                  solid_alpha = 1 / 2 \<rparr>))
                 None DestIn (Resize 500 250 (Png (EnsureAlpha (FromBuffer []))))"
    using half [THEN conjunct1] by simp
  have b: "processedWatermark (Png (EnsureAlpha (FromBuffer []))) 500 250 False 1
     = Resize 500 250 (Png (EnsureAlpha (FromBuffer [])))"
    using full [THEN conjunct1] by simp
  show ?thesis
    using a b half run chain unfolding E_def by blast
qed

section \<open>The canvas of a text watermark\<close>

lemma text_y_near:
  fixes n :: int
  assumes n: "0 < n" "n < 2 ^ 52"
  defines "y \<equiv> js_add (js_div (js_mul (of_int n) 2) 2) (js_div (of_int n) 3)"
  shows "js_mul (of_int n) 2 = 2 * of_int n"
    and "of_int n < y"
    and "\<bar>y - (of_int n + of_int n / 3)\<bar> \<le> of_int n / 2 ^ 51"
proof -
  let ?n = "of_int n :: rat"
  have n1: "1 \<le> ?n" using n by simp
  have "\<bar>2 * n\<bar> < 2 ^ 53" using n by simp
  then have "double_round (of_int (2 * n)) = of_int (2 * n)" by (rule double_round_of_int)
  then show h: "js_mul ?n 2 = 2 * ?n" by (simp add: js_mul_def mult.commute)
  have "\<bar>n\<bar> < 2 ^ 53" using n by simp
  then have dn: "double_round ?n = ?n" by (rule double_round_of_int)
  have half: "double_round (js_mul ?n 2 / 2) = ?n" by (simp add: h dn)
  define f where "f = double_round (?n / 3)"
  have "2 powi (- 1022) \<le> (1::rat) / 2 ^ 54" by (rule tiny_le)
  also have "\<dots> \<le> ?n / 3" using n1 by simp
  finally have ef: "\<bar>f - ?n / 3\<bar> \<le> ?n / 3 / 2 ^ 53"
    unfolding f_def by (rule double_round_error)
  have f0: "0 \<le> f" unfolding f_def using n1 by (intro double_round_nonneg) simp
  have "2 powi (- 1022) \<le> (1::rat) / 2 ^ 54" by (rule tiny_le)
  also have "\<dots> \<le> ?n + f" using n1 f0 by simp
  finally have ey: "\<bar>double_round (?n + f) - (?n + f)\<bar> \<le> (?n + f) / 2 ^ 53"
    by (rule double_round_error)
  have y: "y = double_round (?n + f)"
    by (simp add: y_def half js_add_def js_div_def f_def)
  have c: "(2::rat) ^ 53 = 9007199254740992" "(2::rat) ^ 51 = 2251799813685248" by simp_all
  show "?n < y" using ef ey n1 unfolding y c by (rule near_four_thirds)
  show "\<bar>y - (?n + ?n / 3)\<bar> \<le> ?n / 2 ^ 51"
    using ef ey n1 unfolding y c by (rule near_four_thirds)
qed

lemma canvas_fields:
  "svg_width (createTextWatermarkSVG opts)
     = max 500 (js_mul (js_mul (of_nat (length (o_text opts))) (o_fontSize opts))
                  (literal (8 / 10)))"
  "svg_height (createTextWatermarkSVG opts) = js_mul (o_fontSize opts) 2"
  "text_x (createTextWatermarkSVG opts) = js_div (svg_width (createTextWatermarkSVG opts)) 2"
  "text_y (createTextWatermarkSVG opts)
     = js_add (js_div (svg_height (createTextWatermarkSVG opts)) 2) (js_div (o_fontSize opts) 3)"
  "css_text_anchor (createTextWatermarkSVG opts) = js ''middle''"
  "css_dominant_baseline (createTextWatermarkSVG opts) = js ''middle''"
  by (simp_all add: createTextWatermarkSVG_def Let_def)

lemma text_x_half:
  "text_x (createTextWatermarkSVG opts) = svg_width (createTextWatermarkSVG opts) / 2"
  unfolding canvas_fields(3) unfolding canvas_fields(1) js_div_def js_mul_def [of _ "literal (8 / 10)"]
  by (rule canvas_width_halve)

text \<open>
  The vertical part of claim C8 fails on the code. For the text \<open>Sample\<close> at font size 48
  the canvas is 96 high and the text is placed at \<open>y = 64\<close>, not at the middle, 48.
\<close>

theorem text_vertical_counterexample:
  "svg_height (createTextWatermarkSVG
      \<lparr> o_text = js ''Sample'', o_fontFamily = js ''Arial'', o_fontSize = 48,
        o_color = js ''#FFFFFF'', o_bold = False, o_italic = False, o_opacity = 1 / 2 \<rparr>) = 96
   \<and> text_y (createTextWatermarkSVG
      \<lparr> o_text = js ''Sample'', o_fontFamily = js ''Arial'', o_fontSize = 48,
        o_color = js ''#FFFFFF'', o_bold = False, o_italic = False, o_opacity = 1 / 2 \<rparr>) = 64
   \<and> text_y (createTextWatermarkSVG
      \<lparr> o_text = js ''Sample'', o_fontFamily = js ''Arial'', o_fontSize = 48,
        o_color = js ''#FFFFFF'', o_bold = False, o_italic = False, o_opacity = 1 / 2 \<rparr>)
     \<noteq> svg_height (createTextWatermarkSVG
      \<lparr> o_text = js ''Sample'', o_fontFamily = js ''Arial'', o_fontSize = 48,
        o_color = js ''#FFFFFF'', o_bold = False, o_italic = False, o_opacity = 1 / 2 \<rparr>) / 2"
proof -
  have d: "double_round 96 = 96" "double_round 48 = 48" "double_round 16 = 16"
    "double_round 64 = 64"
    by code_simp+
  show ?thesis
    by (simp add: canvas_fields js_mul_def js_div_def js_add_def d)
qed

text \<open>
  Claim C8, amended. The canvas is \<open>max(500, text.length * fontSize * 0.8)\<close> wide and
  \<open>fontSize * 2\<close> high (double arithmetic). The text is anchored with
  \<open>text-anchor: middle\<close> at exactly half the width, so it is centered horizontally, and
  with \<open>dominant-baseline: middle\<close> at \<open>y = height / 2 + fontSize / 3\<close>: for a font size
  that is a positive integer (below \<open>2^52\<close>) the height is twice the font size and the
  anchor lies below the middle of the canvas, a third of the font size lower up to
  rounding.
\<close>

theorem text_canvas:
  "svg_width (createTextWatermarkSVG opts)
     = max 500 (js_mul (js_mul (of_nat (length (o_text opts))) (o_fontSize opts))
                  (literal (8 / 10)))
   \<and> svg_height (createTextWatermarkSVG opts) = js_mul (o_fontSize opts) 2
   \<and> text_x (createTextWatermarkSVG opts) = svg_width (createTextWatermarkSVG opts) / 2
   \<and> css_text_anchor (createTextWatermarkSVG opts) = js ''middle''
   \<and> text_y (createTextWatermarkSVG opts)
       = js_add (js_div (svg_height (createTextWatermarkSVG opts)) 2)
           (js_div (o_fontSize opts) 3)
   \<and> css_dominant_baseline (createTextWatermarkSVG opts) = js ''middle''
   \<and> (o_fontSize opts = of_int n \<and> 0 < n \<and> n < 2 ^ 52
        \<longrightarrow> svg_height (createTextWatermarkSVG opts) = 2 * of_int n
          \<and> svg_height (createTextWatermarkSVG opts) / 2 < text_y (createTextWatermarkSVG opts)
          \<and> \<bar>text_y (createTextWatermarkSVG opts)
               - (svg_height (createTextWatermarkSVG opts) / 2 + of_int n / 3)\<bar>
              \<le> of_int n / 2 ^ 51)"
proof -
  have int_size: "svg_height (createTextWatermarkSVG opts) = 2 * of_int n
          \<and> svg_height (createTextWatermarkSVG opts) / 2 < text_y (createTextWatermarkSVG opts)
          \<and> \<bar>text_y (createTextWatermarkSVG opts)
               - (svg_height (createTextWatermarkSVG opts) / 2 + of_int n / 3)\<bar>
              \<le> of_int n / 2 ^ 51"
    if "o_fontSize opts = of_int n \<and> 0 < n \<and> n < 2 ^ 52"
  proof -
    from that have fs: "o_fontSize opts = of_int n" and n: "0 < n" "n < 2 ^ 52" by simp_all
    note y = text_y_near [OF n]
    have h: "svg_height (createTextWatermarkSVG opts) = 2 * of_int n"
      by (simp only: canvas_fields(2) fs y(1))
    have ty: "text_y (createTextWatermarkSVG opts)
        = js_add (js_div (js_mul (of_int n) 2) 2) (js_div (of_int n) 3)"
      by (simp only: canvas_fields(4) canvas_fields(2) fs)
    show ?thesis
      using y(2) y(3) unfolding h ty by simp
  qed
  show ?thesis
    using canvas_fields [of opts] text_x_half [of opts] int_size by blast
qed

theorem text_canvas_witness:
  "o_fontSize
      \<lparr> o_text = js ''Copyright My Company'', o_fontFamily = js ''Arial'', o_fontSize = 48,
        o_color = js ''#FFFFFF'', o_bold = False, o_italic = False, o_opacity = 1 / 2 \<rparr>
     = of_int 48 \<and> (0::int) < 48 \<and> (48::int) < 2 ^ 52
   \<and> svg_width (createTextWatermarkSVG
      \<lparr> o_text = js ''Copyright My Company'', o_fontFamily = js ''Arial'', o_fontSize = 48,
        o_color = js ''#FFFFFF'', o_bold = False, o_italic = False, o_opacity = 1 / 2 \<rparr>) = 768
   \<and> text_x (createTextWatermarkSVG
      \<lparr> o_text = js ''Copyright My Company'', o_fontFamily = js ''Arial'', o_fontSize = 48,
        o_color = js ''#FFFFFF'', o_bold = False, o_italic = False, o_opacity = 1 / 2 \<rparr>) = 384
   \<and> svg_height (createTextWatermarkSVG
      \<lparr> o_text = js ''Copyright My Company'', o_fontFamily = js ''Arial'', o_fontSize = 48,
        o_color = js ''#FFFFFF'', o_bold = False, o_italic = False, o_opacity = 1 / 2 \<rparr>) = 96
   \<and> 48 < text_y (createTextWatermarkSVG
      \<lparr> o_text = js ''Copyright My Company'', o_fontFamily = js ''Arial'', o_fontSize = 48,
        o_color = js ''#FFFFFF'', o_bold = False, o_italic = False, o_opacity = 1 / 2 \<rparr>)"
proof -
  define opts where "opts =
      \<lparr> o_text = js ''Copyright My Company'', o_fontFamily = js ''Arial'', o_fontSize = 48,
        o_color = js ''#FFFFFF'', o_bold = False, o_italic = False, o_opacity = 1 / 2 \<rparr>"
  note inst = text_canvas [of opts 48]
  have l: "literal (4 / 5) = 3602879701896397 / 4503599627370496" by code_simp
  have d: "double_round 960 = 960"
    "double_round (54043195528445955 / 70368744177664) = 768"
    by code_simp+
  have len: "length (o_text opts) = 20" by (simp add: opts_def js_def)
  have fs: "o_fontSize opts = of_int 48" by (simp add: opts_def)
  have w: "svg_width (createTextWatermarkSVG opts) = 768"
    using inst [THEN conjunct1] by (simp add: len fs js_mul_def l d)
  have x: "text_x (createTextWatermarkSVG opts) = 384"
    using inst [THEN conjunct2, THEN conjunct2, THEN conjunct1] by (simp add: w)
  have hy: "svg_height (createTextWatermarkSVG opts) = 96
      \<and> 48 < text_y (createTextWatermarkSVG opts)"
    using inst [THEN conjunct2, THEN conjunct2, THEN conjunct2, THEN conjunct2, THEN conjunct2,
        THEN conjunct2] fs
    by simp
  show ?thesis
    using fs w x hy unfolding opts_def by simp
qed

section \<open>Escaping of the watermark text\<close>

lemma replace_all_append:
  "replace_all c r (a @ b) = replace_all c r a @ replace_all c r b"
  by (induction a) simp_all

lemma escapeXML_Nil: "escapeXML [] = []"
  by (simp add: escapeXML_def)

lemma escapeXML_Cons: "escapeXML (x # xs) = entity_of x @ escapeXML xs"
  by (simp add: escapeXML_def entity_of_def js_def replace_all_append)

lemma escapeXML_concat: "escapeXML s = concat (map entity_of s)"
  by (induction s) (simp_all add: escapeXML_Nil escapeXML_Cons)

lemma entity_of_raw:
  "60 \<notin> set (entity_of c)" "62 \<notin> set (entity_of c)"
  "34 \<notin> set (entity_of c)" "39 \<notin> set (entity_of c)"
  by (simp_all add: entity_of_def js_def)

lemma escapeXML_raw:
  "60 \<notin> set (escapeXML s) \<and> 62 \<notin> set (escapeXML s)
   \<and> 34 \<notin> set (escapeXML s) \<and> 39 \<notin> set (escapeXML s)"
  by (simp add: escapeXML_concat entity_of_raw)

lemma unescapeXML_skip:
  "unescapeXML (numeral k) (x # xs) = unescapeXML (pred_numeral k) xs"
  by (simp add: numeral_eq_Suc)

lemma unescape_entity:
  "unescapeXML 0 (entity_of c @ rest) = c # unescapeXML 0 rest"
  by (simp add: entity_of_def js_def unescapeXML_skip)

lemma unescape_escape: "unescapeXML 0 (escapeXML s) = s"
  by (induction s) (simp_all add: escapeXML_Nil escapeXML_Cons unescape_entity)

lemma text_body_escaped: "text_body (createTextWatermarkSVG opts) = escapeXML (o_text opts)"
  by (simp add: createTextWatermarkSVG_def Let_def)

text \<open>
  Claim C9. The text element of the generated SVG holds \<open>escapeXML\<close> of the content; the
  five passes of \<open>escapeXML\<close> replace every ampersand, \<open><\<close>, \<open>>\<close>, double quote and
  single quote by its entity and nothing else; the result has no raw \<open><\<close>, \<open>>\<close>,
  double quote or single quote; and reading the entities back gives the content.
\<close>

theorem escapeXML_entities_roundtrip:
  "text_body (createTextWatermarkSVG opts) = escapeXML (o_text opts)
   \<and> escapeXML s = concat (map entity_of s)
   \<and> 60 \<notin> set (escapeXML s) \<and> 62 \<notin> set (escapeXML s)
   \<and> 34 \<notin> set (escapeXML s) \<and> 39 \<notin> set (escapeXML s)
   \<and> unescapeXML 0 (escapeXML s) = s"
  using text_body_escaped escapeXML_concat escapeXML_raw unescape_escape by blast

theorem escapeXML_entities_roundtrip_witness:
  "text_body (createTextWatermarkSVG
      \<lparr> o_text = js ''<b>Tom & \"Jerry\"</b>'', o_fontFamily = js ''Arial'', o_fontSize = 48,
        o_color = js ''#FFFFFF'', o_bold = False, o_italic = False, o_opacity = 1 / 2 \<rparr>)
     = js ''&lt;b&gt;Tom &amp; &quot;Jerry&quot;&lt;/b&gt;''
   \<and> unescapeXML 0 (js ''&lt;b&gt;Tom &amp; &quot;Jerry&quot;&lt;/b&gt;'')
     = js ''<b>Tom & \"Jerry\"</b>''"
proof -
  have e: "escapeXML (js ''<b>Tom & \"Jerry\"</b>'')
             = js ''&lt;b&gt;Tom &amp; &quot;Jerry&quot;&lt;/b&gt;''"
    by (simp add: escapeXML_def js_def)
  note inst = escapeXML_entities_roundtrip
      [of "\<lparr> o_text = js ''<b>Tom & \"Jerry\"</b>'', o_fontFamily = js ''Arial'',
            o_fontSize = 48, o_color = js ''#FFFFFF'', o_bold = False, o_italic = False,
            o_opacity = 1 / 2 \<rparr>" "js ''<b>Tom & \"Jerry\"</b>''"]
  have body: "text_body (createTextWatermarkSVG
            \<lparr> o_text = js ''<b>Tom & \"Jerry\"</b>'', o_fontFamily = js ''Arial'',
              o_fontSize = 48, o_color = js ''#FFFFFF'', o_bold = False, o_italic = False,
              o_opacity = 1 / 2 \<rparr>)
          = escapeXML (js ''<b>Tom & \"Jerry\"</b>'')"
    using inst [THEN conjunct1] by simp
  have decoded: "unescapeXML 0 (escapeXML (js ''<b>Tom & \"Jerry\"</b>''))
          = js ''<b>Tom & \"Jerry\"</b>''"
    using inst by blast
  show ?thesis
    using body decoded by (simp add: e)
qed

section \<open>Output format and output path\<close>

lemma lower_unit_dot: "lower_unit dot = dot"
  by (simp add: lower_unit_def dot_def)

lemma ext_of_extname:
  assumes "extname inputFile = dot # e"
  shows "replace_first dot [] (toLowerCase (extname inputFile)) = toLowerCase e"
  by (simp add: assms toLowerCase_def lower_unit_dot)


lemma outFormat_default:
  assumes "\<not> List.member [js ''jpg'', js ''jpeg'', js ''png''] format"
    and "extname inputFile = dot # e"
  shows "outFormat format inputFile
           = (if toLowerCase e = js ''jpeg'' then js ''jpg'' else toLowerCase e)"
  using assms(1) by (simp add: outFormat_def Let_def ext_of_extname [OF assms(2)])

lemma outFormat_unrecognized:
  assumes "\<not> List.member [js ''jpg'', js ''jpeg'', js ''png''] format"
  shows "outFormat format inputFile = outFormat [] inputFile"
  using assms by (simp add: outFormat_def Let_def js_def)

lemma read_format_empty: "read_format [] = []"
  by (simp add: read_format_def trim_def toLowerCase_def)

lemma cat_png:
  "extname (js ''/photos/cat.png'') = dot # js ''png''"
  "parse_name (js ''/photos/cat.png'') = js ''cat''"
  "dirname (js ''/photos/cat.png'') = js ''/photos''"
  by (simp_all add: extname_def parse_name_def dirname_def basename_def js_def slash_def dot_def
      Let_def)

lemma toLowerCase_png: "toLowerCase (js ''png'') = js ''png''"
  by (simp add: toLowerCase_def lower_unit_def js_def)

lemma outFormat_cat: "outFormat [] (js ''/photos/cat.png'') = js ''png''"
proof -
  have "outFormat [] (js ''/photos/cat.png'')
          = (if toLowerCase (js ''png'') = js ''jpeg'' then js ''jpg'' else toLowerCase (js ''png''))"
    by (rule outFormat_default) (simp_all add: cat_png, simp add: js_def)
  moreover have "js ''png'' \<noteq> js ''jpeg''" by (simp add: js_def)
  ultimately show ?thesis by (simp add: toLowerCase_png)
qed


lemma outputPath_unfold:
  "outputPath cfg inputFile
     = join (if cfg_outDir cfg \<noteq> [] then cfg_outDir cfg else dirname inputFile)
         (parse_name inputFile @ js ''_watermarked.'' @ outFormat (cfg_format cfg) inputFile)"
  by (simp add: outputPath_def generateOutputName_def Let_def)

lemma outputPath_cat:
  assumes "cfg_format cfg = []" "cfg_outDir cfg = []"
  shows "outputPath cfg (js ''/photos/cat.png'') = js ''/photos/cat_watermarked.png''"
  by (simp add: outputPath_unfold assms cat_png outFormat_cat) (simp add: join_def js_def slash_def)




lemma proceed_format:
  "proceed replies (cfg\<lparr> cfg_format := format \<rparr>) path w = proceed replies cfg path w"
  by (simp add: proceed_def overwriteAll_def skipAll_def)

lemma outputPath_unrecognized:
  assumes "\<not> List.member [js ''jpg'', js ''jpeg'', js ''png''] format"
  shows "outputPath (cfg\<lparr> cfg_format := format \<rparr>) inputFile
           = outputPath (cfg\<lparr> cfg_format := [] \<rparr>) inputFile"
  by (simp add: outputPath_def outFormat_unrecognized [OF assms])

lemma attempt_unrecognized:
  assumes "\<not> List.member [js ''jpg'', js ''jpeg'', js ''png''] format"
  shows "attempt eng (cfg\<lparr> cfg_format := format \<rparr>) inputFile path w
           = attempt eng (cfg\<lparr> cfg_format := [] \<rparr>) inputFile path w"
  by (simp add: attempt_def outFormat_unrecognized [OF assms])

lemma process_file_unrecognized:
  assumes "\<not> List.member [js ''jpg'', js ''jpeg'', js ''png''] format"
  shows "process_file eng replies (cfg\<lparr> cfg_format := format \<rparr>) w inputFile
           = process_file eng replies (cfg\<lparr> cfg_format := [] \<rparr>) w inputFile"
  unfolding process_file_def
  by (simp only: proceed_format outputPath_unrecognized [OF assms]
      attempt_unrecognized [OF assms])

lemma main_batch_unrecognized:
  assumes "\<not> List.member [js ''jpg'', js ''jpeg'', js ''png''] format"
  shows "main_batch eng replies (cfg\<lparr> cfg_format := format \<rparr>) filesToProcess w
           = main_batch eng replies (cfg\<lparr> cfg_format := [] \<rparr>) filesToProcess w"
proof -
  have "process_file eng replies (cfg\<lparr> cfg_format := format \<rparr>)
          = process_file eng replies (cfg\<lparr> cfg_format := [] \<rparr>)"
    by (intro ext) (rule process_file_unrecognized [OF assms])
  then show ?thesis by (simp add: main_batch_def)
qed

text \<open>
  Claim C10. When the reply to the format prompt is, trimmed and in lower case, none of
  \<open>jpg\<close>, \<open>jpeg\<close> and \<open>png\<close>, every file gets the output format it gets for an empty
  reply, which is its own extension in lower case with \<open>jpeg\<close> turned into \<open>jpg\<close>, and
  the whole batch runs as it does for an empty reply. The model has no error for a
  format: the reply is never rejected.
\<close>

theorem unrecognized_format_ignored:
  assumes "\<not> List.member [js ''jpg'', js ''jpeg'', js ''png''] (read_format raw)"
  shows "outFormat (read_format raw) inputFile = outFormat (read_format []) inputFile
    \<and> (extname inputFile = dot # e
        \<longrightarrow> outFormat (read_format raw) inputFile
            = (if toLowerCase e = js ''jpeg'' then js ''jpg'' else toLowerCase e))
    \<and> main_batch eng replies (cfg\<lparr> cfg_format := read_format raw \<rparr>) filesToProcess w
        = main_batch eng replies (cfg\<lparr> cfg_format := read_format [] \<rparr>) filesToProcess w"
  using outFormat_unrecognized [OF assms, of inputFile]
    outFormat_default [OF assms, of inputFile e]
    main_batch_unrecognized [OF assms, of eng replies cfg filesToProcess w]
  unfolding read_format_empty by blast

theorem unrecognized_format_ignored_witness:
  "\<not> List.member [js ''jpg'', js ''jpeg'', js ''png''] (read_format (js '' WebP ''))
   \<and> read_format (js '' WebP '') = js ''webp''
   \<and> extname (js ''/photos/cat.png'') = dot # js ''png''
   \<and> outFormat (read_format (js '' WebP '')) (js ''/photos/cat.png'') = js ''png''
   \<and> outFormat (read_format []) (js ''/photos/cat.png'') = js ''png''"
proof -
  have r: "read_format (js '' WebP '') = js ''webp''"
    by (simp add: read_format_def trim_def toLowerCase_def lower_unit_def is_space_def js_def)
  have n: "\<not> List.member [js ''jpg'', js ''jpeg'', js ''png''] (read_format (js '' WebP ''))"
    unfolding r by (simp add: js_def)
  note inst = unrecognized_format_ignored [OF n, of "js ''/photos/cat.png''" "js ''png''"]
  have same: "outFormat (read_format (js '' WebP '')) (js ''/photos/cat.png'')
          = outFormat (read_format []) (js ''/photos/cat.png'')"
    using inst by blast
  have "outFormat (read_format (js '' WebP '')) (js ''/photos/cat.png'')
          = (if toLowerCase (js ''png'') = js ''jpeg'' then js ''jpg'' else toLowerCase (js ''png''))"
    using inst cat_png(1) by blast
  moreover have "js ''png'' \<noteq> js ''jpeg''" by (simp add: js_def)
  ultimately have own: "outFormat (read_format (js '' WebP '')) (js ''/photos/cat.png'') = js ''png''"
    by (simp add: toLowerCase_png)
  show ?thesis
    using n r cat_png(1) same own by simp
qed

section \<open>Conflict policy\<close>

lemma lower_unit_y: "lower_unit c = 121 \<longleftrightarrow> c = 121 \<or> c = 89"
proof -
  have "c + 32 = 121 \<longleftrightarrow> c = 89"
  proof
    assume "c + 32 = 121"
    then have "c + 32 - 32 = 121 - 32" by simp
    then show "c = 89" by simp
  qed simp
  then show ?thesis by (auto simp add: lower_unit_def)
qed

lemma affirmative: "toLowerCase s = js ''y'' \<longleftrightarrow> s = js ''y'' \<or> s = js ''Y''"
proof (cases s)
  case Nil
  then show ?thesis by (simp add: toLowerCase_def js_def)
next
  case (Cons c cs)
  then show ?thesis by (auto simp add: toLowerCase_def js_def lower_unit_y)
qed

lemma process_file_skipAll:
  assumes "files w (outputPath cfg inputFile) \<noteq> None" "cfg_overwriteOption cfg = js ''s''"
  shows "process_file eng replies cfg w inputFile
           = w\<lparr> console := console w @ [SkipNotice (basename (outputPath cfg inputFile))] \<rparr>"
proof -
  have "js ''s'' \<noteq> js ''o''" by (simp add: js_def)
  then have "proceed replies cfg (outputPath cfg inputFile) w = (False, w)"
    using assms by (simp add: proceed_def overwriteAll_def skipAll_def)
  then show ?thesis by (simp add: process_file_def)
qed

lemma process_file_overwriteAll:
  assumes "cfg_overwriteOption cfg = js ''o''"
  shows "process_file eng replies cfg w inputFile
           = attempt eng cfg inputFile (outputPath cfg inputFile) w"
proof -
  have "proceed replies cfg (outputPath cfg inputFile) w = (True, w)"
    using assms by (simp add: proceed_def overwriteAll_def)
  then show ?thesis by (simp add: process_file_def)
qed

lemma process_file_ask:
  assumes "files w (outputPath cfg inputFile) \<noteq> None" "cfg_overwriteOption cfg = js ''a''"
  shows "process_file eng replies cfg w inputFile
           = (let path = outputPath cfg inputFile;
                  w' = w\<lparr> console := console w @ [Question path], asked := asked w + 1 \<rparr>
              in if trim (replies (asked w)) = js ''y'' \<or> trim (replies (asked w)) = js ''Y''
                 then attempt eng cfg inputFile path w'
                 else w'\<lparr> console := console w' @ [SkipNotice (basename path)] \<rparr>)"
proof -
  have "js ''a'' \<noteq> js ''o''" "js ''a'' \<noteq> js ''s''" by (simp_all add: js_def)
  then have "proceed replies cfg (outputPath cfg inputFile) w
      = (trim (replies (asked w)) = js ''y'' \<or> trim (replies (asked w)) = js ''Y'',
         w\<lparr> console := console w @ [Question (outputPath cfg inputFile)],
            asked := asked w + 1 \<rparr>)"
    using assms by (simp add: proceed_def overwriteAll_def skipAll_def ask_def affirmative Let_def)
  then show ?thesis by (simp add: process_file_def Let_def)
qed

lemma attempt_rendered:
  assumes "applyWatermark eng inputFile (cfg_watermarkBuffer cfg) (cfg_scale cfg)
             (cfg_position cfg) (cfg_opacity cfg) (outFormat (cfg_format cfg) inputFile)
             path (cfg_isTextWatermark cfg) = Inr rendered"
  shows "attempt eng cfg inputFile path w
           = w\<lparr> files := (files w)(path \<mapsto> Rendered rendered),
                console := console w @ [SavedNotice (basename path)] \<rparr>"
  by (simp add: attempt_def assms)

lemma attempt_failed:
  assumes "applyWatermark eng inputFile (cfg_watermarkBuffer cfg) (cfg_scale cfg)
             (cfg_position cfg) (cfg_opacity cfg) (outFormat (cfg_format cfg) inputFile)
             path (cfg_isTextWatermark cfg) = Inl message"
  shows "attempt eng cfg inputFile path w
           = w\<lparr> error_log := error_log w @ [Append (inputFile @ js '' - '' @ message @ [10])],
                console := console w @ [ErrorNotice inputFile message] \<rparr>"
  by (simp add: attempt_def assms)

lemma read_overwriteOption_range:
  "read_overwriteOption raw = js ''o'' \<or> read_overwriteOption raw = js ''s''
   \<or> read_overwriteOption raw = js ''a''"
  by (auto simp add: read_overwriteOption_def Let_def)

text \<open>
  Claim C6. For a file whose output path exists: with the policy \<open>s\<close> (skip all) the
  iteration only prints the skip message, so no file is created or changed and nothing is
  processed; with \<open>o\<close> (overwrite all) the watermark is applied without a question, and
  when that succeeds the output path holds the new rendering; with \<open>a\<close> (ask each time)
  one question is asked, the watermark is applied exactly when the trimmed reply is \<open>y\<close>
  or \<open>Y\<close>, and otherwise the file is skipped. The policy read from the prompt is always
  one of the three.
\<close>

theorem conflict_policy:
  assumes "files w (outputPath cfg inputFile) \<noteq> None"
  defines "path \<equiv> outputPath cfg inputFile"
  shows "(cfg_overwriteOption cfg = js ''s''
      \<longrightarrow> process_file eng replies cfg w inputFile
            = w\<lparr> console := console w @ [SkipNotice (basename path)] \<rparr>
        \<and> files (process_file eng replies cfg w inputFile) = files w)
    \<and> (cfg_overwriteOption cfg = js ''o''
      \<longrightarrow> process_file eng replies cfg w inputFile = attempt eng cfg inputFile path w)
    \<and> (cfg_overwriteOption cfg = js ''o''
        \<and> applyWatermark eng inputFile (cfg_watermarkBuffer cfg) (cfg_scale cfg)
             (cfg_position cfg) (cfg_opacity cfg) (outFormat (cfg_format cfg) inputFile)
             path (cfg_isTextWatermark cfg) = Inr rendered
      \<longrightarrow> process_file eng replies cfg w inputFile
            = w\<lparr> files := (files w)(path \<mapsto> Rendered rendered),
                 console := console w @ [SavedNotice (basename path)] \<rparr>)
    \<and> (cfg_overwriteOption cfg = js ''a''
      \<longrightarrow> process_file eng replies cfg w inputFile
            = (let w' = w\<lparr> console := console w @ [Question path], asked := asked w + 1 \<rparr>
               in if trim (replies (asked w)) = js ''y'' \<or> trim (replies (asked w)) = js ''Y''
                  then attempt eng cfg inputFile path w'
                  else w'\<lparr> console := console w' @ [SkipNotice (basename path)] \<rparr>))
    \<and> (read_overwriteOption raw = js ''o'' \<or> read_overwriteOption raw = js ''s''
        \<or> read_overwriteOption raw = js ''a'')"
proof -
  have skip: "process_file eng replies cfg w inputFile
            = w\<lparr> console := console w @ [SkipNotice (basename path)] \<rparr>
        \<and> files (process_file eng replies cfg w inputFile) = files w"
    if "cfg_overwriteOption cfg = js ''s''"
    using process_file_skipAll [OF assms(1) that, of eng replies] by (simp add: path_def)
  have over: "process_file eng replies cfg w inputFile = attempt eng cfg inputFile path w"
    if "cfg_overwriteOption cfg = js ''o''"
    using process_file_overwriteAll [OF that, of eng replies w inputFile] by (simp add: path_def)
  have written: "process_file eng replies cfg w inputFile
            = w\<lparr> files := (files w)(path \<mapsto> Rendered rendered),
                 console := console w @ [SavedNotice (basename path)] \<rparr>"
    if "cfg_overwriteOption cfg = js ''o''
        \<and> applyWatermark eng inputFile (cfg_watermarkBuffer cfg) (cfg_scale cfg)
             (cfg_position cfg) (cfg_opacity cfg) (outFormat (cfg_format cfg) inputFile)
             path (cfg_isTextWatermark cfg) = Inr rendered"
    using that over attempt_rendered [of eng inputFile cfg path rendered w] by simp
  have asks: "process_file eng replies cfg w inputFile
            = (let w' = w\<lparr> console := console w @ [Question path], asked := asked w + 1 \<rparr>
               in if trim (replies (asked w)) = js ''y'' \<or> trim (replies (asked w)) = js ''Y''
                  then attempt eng cfg inputFile path w'
                  else w'\<lparr> console := console w' @ [SkipNotice (basename path)] \<rparr>)"
    if "cfg_overwriteOption cfg = js ''a''"
    using process_file_ask [OF assms(1) that, of eng replies] by (simp add: path_def Let_def)
  show ?thesis
    using skip over written asks read_overwriteOption_range [of raw] by blast
qed

lemma sample_metadata:
  "p \<noteq> js ''/photos/b.png'' \<Longrightarrow> file_metadata sample_engine p = Inr (1000, 800)"
  "file_metadata sample_engine (js ''/photos/b.png'')
     = Inl (js ''Input file contains unsupported image format'')"
  "buffer_metadata sample_engine buf = Inr \<lparr> meta_width = Some 200, meta_height = Some 100 \<rparr>"
  "to_file sample_engine chain path = None"
  by (simp_all add: sample_engine_def)

lemma sample_rendered:
  assumes "p \<noteq> js ''/photos/b.png''"
  shows "\<exists>out. applyWatermark sample_engine p buf scale position opacity fmt outPath isText = Inr out"
  using sample_metadata(1) [OF assms] sample_metadata(3)
  by (rule applyWatermark_rendered) (rule sample_metadata(4))

lemma sample_failed:
  "applyWatermark sample_engine (js ''/photos/b.png'') buf scale position opacity fmt outPath isText
     = Inl (js ''Input file contains unsupported image format'')"
  by (simp add: applyWatermark_def sample_metadata(2))

lemma sample_cat_path:
  "outputPath (sample_settings opt) (js ''/photos/cat.png'') = js ''/photos/cat_watermarked.png''"
  by (rule outputPath_cat) (simp_all add: sample_settings_def)

lemma sample_cat_exists:
  "files sample_world (js ''/photos/cat_watermarked.png'') = Some (Bytes [])"
  by (simp add: sample_world_def js_def)

lemma basename_cat: "basename (js ''/photos/cat_watermarked.png'') = js ''cat_watermarked.png''"
  by (simp add: basename_def js_def slash_def)

lemma trim_examples: "trim (js '' Y '') = js ''Y''" "trim (js ''no'') = js ''no''"
  by (simp_all add: trim_def is_space_def js_def)

theorem conflict_policy_witness:
  "files sample_world (outputPath (sample_settings (js ''s'')) (js ''/photos/cat.png'')) \<noteq> None
   \<and> process_file sample_engine (\<lambda>n. []) (sample_settings (js ''s'')) sample_world
         (js ''/photos/cat.png'')
       = sample_world\<lparr> console := [SkipNotice (js ''cat_watermarked.png'')] \<rparr>
   \<and> (\<exists>rendered.
         process_file sample_engine (\<lambda>n. []) (sample_settings (js ''o'')) sample_world
           (js ''/photos/cat.png'')
         = sample_world
             \<lparr> files := (files sample_world)
                          (js ''/photos/cat_watermarked.png'' \<mapsto> Rendered rendered),
               console := [SavedNotice (js ''cat_watermarked.png'')] \<rparr>)
   \<and> (\<exists>rendered.
         process_file sample_engine (\<lambda>n. js '' Y '') (sample_settings (js ''a'')) sample_world
           (js ''/photos/cat.png'')
         = sample_world
             \<lparr> files := (files sample_world)
                          (js ''/photos/cat_watermarked.png'' \<mapsto> Rendered rendered),
               console := [Question (js ''/photos/cat_watermarked.png''),
                           SavedNotice (js ''cat_watermarked.png'')],
               asked := 1 \<rparr>)
   \<and> process_file sample_engine (\<lambda>n. js ''no'') (sample_settings (js ''a'')) sample_world
         (js ''/photos/cat.png'')
       = sample_world
           \<lparr> console := [Question (js ''/photos/cat_watermarked.png''),
                         SkipNotice (js ''cat_watermarked.png'')],
             asked := 1 \<rparr>"
proof -
  let ?cat = "js ''/photos/cat.png''"
  let ?out = "js ''/photos/cat_watermarked.png''"
  have ex: "files sample_world (outputPath (sample_settings opt) ?cat) \<noteq> None" for opt
    by (simp add: sample_cat_path sample_cat_exists)
  have opt: "cfg_overwriteOption (sample_settings opt) = opt" for opt
    by (simp add: sample_settings_def)
  have w0: "console sample_world = []" "asked sample_world = 0"
    by (simp_all add: sample_world_def)
  have nb: "?cat \<noteq> js ''/photos/b.png''" by (simp add: js_def)
  have run: "\<exists>rendered. applyWatermark sample_engine ?cat
      (cfg_watermarkBuffer (sample_settings opt)) (cfg_scale (sample_settings opt))
      (cfg_position (sample_settings opt)) (cfg_opacity (sample_settings opt))
      (outFormat (cfg_format (sample_settings opt)) ?cat)
      ?out (cfg_isTextWatermark (sample_settings opt)) = Inr rendered" for opt
    using nb by (rule sample_rendered)
  have s: "process_file sample_engine (\<lambda>n. []) (sample_settings (js ''s'')) sample_world ?cat
       = sample_world\<lparr> console := [SkipNotice (js ''cat_watermarked.png'')] \<rparr>"
    using conflict_policy [OF ex, of "js ''s''" sample_engine "\<lambda>n. []", THEN conjunct1]
    by (simp add: opt sample_cat_path basename_cat w0)
  obtain r1 where r1: "applyWatermark sample_engine ?cat
      (cfg_watermarkBuffer (sample_settings (js ''o''))) (cfg_scale (sample_settings (js ''o'')))
      (cfg_position (sample_settings (js ''o''))) (cfg_opacity (sample_settings (js ''o'')))
      (outFormat (cfg_format (sample_settings (js ''o''))) ?cat)
      ?out (cfg_isTextWatermark (sample_settings (js ''o''))) = Inr r1"
    using run by blast
  have o: "process_file sample_engine (\<lambda>n. []) (sample_settings (js ''o'')) sample_world ?cat
         = sample_world
             \<lparr> files := (files sample_world)(?out \<mapsto> Rendered r1),
               console := [SavedNotice (js ''cat_watermarked.png'')] \<rparr>"
    using conflict_policy [OF ex, of "js ''o''" sample_engine "\<lambda>n. []" r1,
        THEN conjunct2, THEN conjunct2, THEN conjunct1] r1
    by (simp add: opt sample_cat_path basename_cat w0)
  obtain r2 where r2: "applyWatermark sample_engine ?cat
      (cfg_watermarkBuffer (sample_settings (js ''a''))) (cfg_scale (sample_settings (js ''a'')))
      (cfg_position (sample_settings (js ''a''))) (cfg_opacity (sample_settings (js ''a'')))
      (outFormat (cfg_format (sample_settings (js ''a''))) ?cat)
      ?out (cfg_isTextWatermark (sample_settings (js ''a''))) = Inr r2"
    using run by blast
  have yn: "js ''no'' \<noteq> js ''y''" "js ''no'' \<noteq> js ''Y''" by (simp_all add: js_def)
  have y: "process_file sample_engine (\<lambda>n. js '' Y '') (sample_settings (js ''a'')) sample_world
           ?cat
         = sample_world
             \<lparr> files := (files sample_world)(?out \<mapsto> Rendered r2),
               console := [Question ?out, SavedNotice (js ''cat_watermarked.png'')],
               asked := 1 \<rparr>"
    using conflict_policy [OF ex, of "js ''a''" sample_engine "\<lambda>n. js '' Y ''",
        THEN conjunct2, THEN conjunct2, THEN conjunct2, THEN conjunct1]
    by (simp add: opt sample_cat_path basename_cat w0 trim_examples
        attempt_rendered [OF r2])
  have n: "process_file sample_engine (\<lambda>n. js ''no'') (sample_settings (js ''a'')) sample_world
         ?cat
       = sample_world\<lparr> console := [Question ?out, SkipNotice (js ''cat_watermarked.png'')],
                         asked := 1 \<rparr>"
    using conflict_policy [OF ex, of "js ''a''" sample_engine "\<lambda>n. js ''no''",
        THEN conjunct2, THEN conjunct2, THEN conjunct2, THEN conjunct1]
    by (simp add: opt sample_cat_path basename_cat w0 trim_examples yn)
  show ?thesis
    using ex s o y n by blast
qed

section \<open>Failures within the batch\<close>

lemma log_lines_append: "log_lines (xs @ ys) = log_lines xs @ log_lines ys"
  by (induction xs rule: log_lines.induct) simp_all

lemma outcomes_append: "outcomes (xs @ ys) = outcomes xs + outcomes ys"
  by (induction xs rule: outcomes.induct) simp_all

lemma attempt_step:
  "\<exists>new. console (attempt eng cfg inputFile path w) = console w @ new
     \<and> error_log (attempt eng cfg inputFile path w) = error_log w @ log_lines new
     \<and> outcomes new = 1"
proof (cases "applyWatermark eng inputFile (cfg_watermarkBuffer cfg) (cfg_scale cfg)
             (cfg_position cfg) (cfg_opacity cfg) (outFormat (cfg_format cfg) inputFile)
             path (cfg_isTextWatermark cfg)")
  case (Inl message)
  have "console (attempt eng cfg inputFile path w) = console w @ [ErrorNotice inputFile message]
     \<and> error_log (attempt eng cfg inputFile path w)
         = error_log w @ log_lines [ErrorNotice inputFile message]
     \<and> outcomes [ErrorNotice inputFile message] = 1"
    by (simp add: attempt_failed [OF Inl])
  then show ?thesis by blast
next
  case (Inr rendered)
  have "console (attempt eng cfg inputFile path w) = console w @ [SavedNotice (basename path)]
     \<and> error_log (attempt eng cfg inputFile path w)
         = error_log w @ log_lines [SavedNotice (basename path)]
     \<and> outcomes [SavedNotice (basename path)] = 1"
    by (simp add: attempt_rendered [OF Inr])
  then show ?thesis by blast
qed

lemma proceed_step:
  assumes "proceed replies cfg path w = (go, w1)"
  shows "\<exists>new. console w1 = console w @ new \<and> error_log w1 = error_log w
     \<and> log_lines new = [] \<and> outcomes new = 0"
proof (cases "files w path \<noteq> None \<and> \<not> overwriteAll cfg \<and> \<not> skipAll cfg")
  case True
  with assms have "w1 = w\<lparr> console := console w @ [Question path], asked := asked w + 1 \<rparr>"
    by (auto simp add: proceed_def Let_def)
  then have "console w1 = console w @ [Question path] \<and> error_log w1 = error_log w
     \<and> log_lines [Question path] = [] \<and> outcomes [Question path] = 0"
    by simp
  then show ?thesis by blast
next
  case False
  with assms have "w1 = w" by (auto simp add: proceed_def split: if_splits)
  then have "console w1 = console w @ [] \<and> error_log w1 = error_log w
     \<and> log_lines [] = [] \<and> outcomes [] = 0"
    by simp
  then show ?thesis by blast
qed

lemma process_file_step:
  "\<exists>new. console (process_file eng replies cfg w inputFile) = console w @ new
     \<and> error_log (process_file eng replies cfg w inputFile) = error_log w @ log_lines new
     \<and> outcomes new = 1"
proof -
  obtain go w1 where p: "proceed replies cfg (outputPath cfg inputFile) w = (go, w1)"
    by (cases "proceed replies cfg (outputPath cfg inputFile) w")
  from proceed_step [OF p] obtain q where q: "console w1 = console w @ q"
    "error_log w1 = error_log w" "log_lines q = []" "outcomes q = 0"
    by blast
  show ?thesis
  proof (cases go)
    case False
    let ?n = "q @ [SkipNotice (basename (outputPath cfg inputFile))]"
    have "console (process_file eng replies cfg w inputFile) = console w @ ?n
       \<and> error_log (process_file eng replies cfg w inputFile) = error_log w @ log_lines ?n
       \<and> outcomes ?n = 1"
      using False by (simp add: process_file_def p q log_lines_append outcomes_append)
    then show ?thesis by blast
  next
    case True
    from attempt_step [of eng cfg inputFile "outputPath cfg inputFile" w1]
    obtain a where a: "console (attempt eng cfg inputFile (outputPath cfg inputFile) w1)
        = console w1 @ a"
      "error_log (attempt eng cfg inputFile (outputPath cfg inputFile) w1)
        = error_log w1 @ log_lines a"
      "outcomes a = 1"
      by blast
    have "console (process_file eng replies cfg w inputFile) = console w @ (q @ a)
       \<and> error_log (process_file eng replies cfg w inputFile) = error_log w @ log_lines (q @ a)
       \<and> outcomes (q @ a) = 1"
      using True by (simp add: process_file_def p q a log_lines_append outcomes_append)
    then show ?thesis by blast
  qed
qed

lemma process_files_steps:
  "\<exists>new. console (foldl (process_file eng replies cfg) w fs) = console w @ new
     \<and> error_log (foldl (process_file eng replies cfg) w fs) = error_log w @ log_lines new
     \<and> outcomes new = length fs"
proof (induction fs arbitrary: w)
  case Nil
  have "console w = console w @ [] \<and> error_log w = error_log w @ log_lines []
      \<and> outcomes [] = length ([] :: jsstring list)"
    by simp
  then show ?case by (simp only: foldl_Nil) blast
next
  case (Cons f fs)
  from process_file_step [of eng replies cfg w f]
  obtain a where a: "console (process_file eng replies cfg w f) = console w @ a"
    "error_log (process_file eng replies cfg w f) = error_log w @ log_lines a"
    "outcomes a = 1"
    by blast
  from Cons.IH [of "process_file eng replies cfg w f"]
  obtain b where b: "console (foldl (process_file eng replies cfg)
        (process_file eng replies cfg w f) fs) = console (process_file eng replies cfg w f) @ b"
    "error_log (foldl (process_file eng replies cfg) (process_file eng replies cfg w f) fs)
        = error_log (process_file eng replies cfg w f) @ log_lines b"
    "outcomes b = length fs"
    by blast
  have "console (foldl (process_file eng replies cfg) w (f # fs)) = console w @ (a @ b)
     \<and> error_log (foldl (process_file eng replies cfg) w (f # fs))
         = error_log w @ log_lines (a @ b)
     \<and> outcomes (a @ b) = length (f # fs)"
    by (simp add: a b log_lines_append outcomes_append)
  then show ?case by blast
qed

lemma main_batch_steps:
  "\<exists>new. console (main_batch eng replies cfg fs w) = console w @ new @ [Completed]
     \<and> error_log (main_batch eng replies cfg fs w) = error_log w @ Truncate # log_lines new
     \<and> outcomes new = length fs"
proof -
  let ?w0 = "w\<lparr> error_log := error_log w @ [Truncate] \<rparr>"
  from process_files_steps [of eng replies cfg ?w0 fs]
  obtain new where n: "console (foldl (process_file eng replies cfg) ?w0 fs) = console ?w0 @ new"
    "error_log (foldl (process_file eng replies cfg) ?w0 fs) = error_log ?w0 @ log_lines new"
    "outcomes new = length fs"
    by blast
  have "console (main_batch eng replies cfg fs w) = console w @ new @ [Completed]
     \<and> error_log (main_batch eng replies cfg fs w) = error_log w @ Truncate # log_lines new
     \<and> outcomes new = length fs"
    by (simp add: main_batch_def Let_def n)
  then show ?thesis by blast
qed

lemma log_content_truncate:
  "log_content (ws @ Truncate # log_lines new) content = log_content (log_lines new) []"
proof (induction ws arbitrary: content)
  case Nil
  show ?case by simp
next
  case (Cons a ws)
  then show ?case by (cases a) simp_all
qed

lemma process_file_failed:
  assumes "proceed replies cfg (outputPath cfg inputFile) w = (True, w1)"
    and "applyWatermark eng inputFile (cfg_watermarkBuffer cfg) (cfg_scale cfg)
           (cfg_position cfg) (cfg_opacity cfg) (outFormat (cfg_format cfg) inputFile)
           (outputPath cfg inputFile) (cfg_isTextWatermark cfg) = Inl message"
  shows "process_file eng replies cfg w inputFile
           = w1\<lparr> error_log := error_log w1 @ [Append (inputFile @ js '' - '' @ message @ [10])],
                 console := console w1 @ [ErrorNotice inputFile message] \<rparr>"
  by (simp add: process_file_def assms(1) attempt_failed [OF assms(2)])

lemma process_file_fresh:
  assumes "files w (outputPath cfg inputFile) = None"
  shows "proceed replies cfg (outputPath cfg inputFile) w = (True, w)"
    and "process_file eng replies cfg w inputFile
           = attempt eng cfg inputFile (outputPath cfg inputFile) w"
  using assms by (simp_all add: process_file_def proceed_def)

text \<open>
  Claim C5. When the watermark is applied to a file and \<open>applyWatermark\<close> throws, the
  iteration ends with the line \<open>inputFile - message\<close> and a newline appended to
  \<open>error.log\<close> and the error printed, nothing else changed, and the loop goes on with
  the next file from that world. For the whole batch: \<open>error.log\<close> is emptied first, the
  lines appended to it are those of the errors printed, in order, and they are all the
  file holds afterwards; every file gets one outcome (saved, skipped or failed); and the
  run ends with the closing message.
\<close>

theorem failure_isolated:
  "(proceed replies cfg (outputPath cfg inputFile) w = (True, w1)
      \<and> applyWatermark eng inputFile (cfg_watermarkBuffer cfg) (cfg_scale cfg)
           (cfg_position cfg) (cfg_opacity cfg) (outFormat (cfg_format cfg) inputFile)
           (outputPath cfg inputFile) (cfg_isTextWatermark cfg) = Inl message
      \<longrightarrow> process_file eng replies cfg w inputFile
            = w1\<lparr> error_log := error_log w1 @ [Append (inputFile @ js '' - '' @ message @ [10])],
                  console := console w1 @ [ErrorNotice inputFile message] \<rparr>)
   \<and> foldl (process_file eng replies cfg) w (inputFile # rest)
       = foldl (process_file eng replies cfg) (process_file eng replies cfg w inputFile) rest
   \<and> (\<exists>new. console (main_batch eng replies cfg filesToProcess w)
               = console w @ new @ [Completed]
        \<and> error_log (main_batch eng replies cfg filesToProcess w)
               = error_log w @ Truncate # log_lines new
        \<and> log_content (error_log (main_batch eng replies cfg filesToProcess w)) content
               = log_content (log_lines new) []
        \<and> outcomes new = length filesToProcess)"
proof -
  from main_batch_steps [of eng replies cfg filesToProcess w]
  obtain new where n: "console (main_batch eng replies cfg filesToProcess w)
               = console w @ new @ [Completed]"
    "error_log (main_batch eng replies cfg filesToProcess w)
               = error_log w @ Truncate # log_lines new"
    "outcomes new = length filesToProcess"
    by blast
  have "log_content (error_log (main_batch eng replies cfg filesToProcess w)) content
               = log_content (log_lines new) []"
    unfolding n(2) by (rule log_content_truncate)
  with n have batch: "\<exists>new. console (main_batch eng replies cfg filesToProcess w)
               = console w @ new @ [Completed]
        \<and> error_log (main_batch eng replies cfg filesToProcess w)
               = error_log w @ Truncate # log_lines new
        \<and> log_content (error_log (main_batch eng replies cfg filesToProcess w)) content
               = log_content (log_lines new) []
        \<and> outcomes new = length filesToProcess"
    by blast
  have next_file: "foldl (process_file eng replies cfg) w (inputFile # rest)
       = foldl (process_file eng replies cfg) (process_file eng replies cfg w inputFile) rest"
    by simp
  show ?thesis
    using process_file_failed [of replies cfg inputFile w w1 eng message] next_file batch
    by blast
qed

lemma sample_paths:
  "outputPath (sample_settings opt) (js ''/photos/a.png'') = js ''/photos/a_watermarked.png''"
  "outputPath (sample_settings opt) (js ''/photos/b.png'') = js ''/photos/b_watermarked.png''"
  "outputPath (sample_settings opt) (js ''/photos/c.jpg'') = js ''/photos/c_watermarked.jpg''"
  by (simp_all add: outputPath_def generateOutputName_def outFormat_def sample_settings_def
      extname_def parse_name_def dirname_def basename_def join_def toLowerCase_def
      lower_unit_def js_def slash_def dot_def Let_def)

lemma sample_basenames:
  "basename (js ''/photos/a_watermarked.png'') = js ''a_watermarked.png''"
  "basename (js ''/photos/c_watermarked.jpg'') = js ''c_watermarked.jpg''"
  by (simp_all add: basename_def js_def slash_def)

theorem failure_isolated_witness:
  "\<exists>ra rc.
     main_batch sample_engine (\<lambda>n. []) (sample_settings (js ''a''))
       [js ''/photos/a.png'', js ''/photos/b.png'', js ''/photos/c.jpg''] sample_world
     = sample_world
         \<lparr> files := (files sample_world)
                      (js ''/photos/a_watermarked.png'' \<mapsto> Rendered ra,
                       js ''/photos/c_watermarked.jpg'' \<mapsto> Rendered rc),
           error_log :=
             [Truncate,
              Append (js ''/photos/b.png - Input file contains unsupported image format''
                      @ [10])],
           console :=
             [SavedNotice (js ''a_watermarked.png''),
              ErrorNotice (js ''/photos/b.png'')
                (js ''Input file contains unsupported image format''),
              SavedNotice (js ''c_watermarked.jpg''),
              Completed] \<rparr>
     \<and> log_content
           (error_log (main_batch sample_engine (\<lambda>n. []) (sample_settings (js ''a''))
              [js ''/photos/a.png'', js ''/photos/b.png'', js ''/photos/c.jpg''] sample_world))
           (js ''old lines'')
         = js ''/photos/b.png - Input file contains unsupported image format'' @ [10]"
proof -
  let ?a = "js ''/photos/a.png''" and ?b = "js ''/photos/b.png''" and ?c = "js ''/photos/c.jpg''"
  let ?ao = "js ''/photos/a_watermarked.png''" and ?bo = "js ''/photos/b_watermarked.png''"
    and ?co = "js ''/photos/c_watermarked.jpg''"
  let ?msg = "js ''Input file contains unsupported image format''"
  let ?cfg = "sample_settings (js ''a'')"
  let ?R = "\<lambda>n::nat. [] :: jsstring"
  define w0 where "w0 = sample_world\<lparr> error_log := error_log sample_world @ [Truncate] \<rparr>"
  have ne: "?a \<noteq> ?b" "?c \<noteq> ?b" "?bo \<noteq> ?ao" "?co \<noteq> ?ao" "?co \<noteq> ?bo"
    by (simp_all add: js_def)
  have fresh: "files sample_world ?ao = None" "files sample_world ?bo = None"
    "files sample_world ?co = None"
    by (simp_all add: sample_world_def js_def)
  obtain ra where ra: "applyWatermark sample_engine ?a (cfg_watermarkBuffer ?cfg)
      (cfg_scale ?cfg) (cfg_position ?cfg) (cfg_opacity ?cfg) (outFormat (cfg_format ?cfg) ?a)
      ?ao (cfg_isTextWatermark ?cfg) = Inr ra"
    using sample_rendered [OF ne(1)] by blast
  obtain rc where rc: "applyWatermark sample_engine ?c (cfg_watermarkBuffer ?cfg)
      (cfg_scale ?cfg) (cfg_position ?cfg) (cfg_opacity ?cfg) (outFormat (cfg_format ?cfg) ?c)
      ?co (cfg_isTextWatermark ?cfg) = Inr rc"
    using sample_rendered [OF ne(2)] by blast
  define w1 where "w1 = w0\<lparr> files := (files w0)(?ao \<mapsto> Rendered ra),
      console := console w0 @ [SavedNotice (js ''a_watermarked.png'')] \<rparr>"
  define w2 where "w2 = w1\<lparr> error_log := error_log w1 @ [Append (?b @ js '' - '' @ ?msg @ [10])],
      console := console w1 @ [ErrorNotice ?b ?msg] \<rparr>"
  define w3 where "w3 = w2\<lparr> files := (files w2)(?co \<mapsto> Rendered rc),
      console := console w2 @ [SavedNotice (js ''c_watermarked.jpg'')] \<rparr>"
  have s1: "process_file sample_engine ?R ?cfg w0 ?a = w1"
    using process_file_fresh(2) [of w0 ?cfg ?a sample_engine ?R]
    by (simp add: sample_paths w0_def fresh attempt_rendered [OF ra] sample_basenames w1_def)
  have p2: "proceed ?R ?cfg (outputPath ?cfg ?b) w1 = (True, w1)"
    by (rule process_file_fresh(1)) (simp add: sample_paths w1_def w0_def fresh ne)
  have f2: "applyWatermark sample_engine ?b (cfg_watermarkBuffer ?cfg)
      (cfg_scale ?cfg) (cfg_position ?cfg) (cfg_opacity ?cfg) (outFormat (cfg_format ?cfg) ?b)
      (outputPath ?cfg ?b) (cfg_isTextWatermark ?cfg) = Inl ?msg"
    by (rule sample_failed)
  have s2: "process_file sample_engine ?R ?cfg w1 ?b = w2"
    using failure_isolated [of ?R ?cfg ?b w1 w1 sample_engine ?msg, THEN conjunct1] p2 f2
    by (simp add: w2_def)
  have s3: "process_file sample_engine ?R ?cfg w2 ?c = w3"
    using process_file_fresh(2) [of w2 ?cfg ?c sample_engine ?R]
    by (simp add: sample_paths w2_def w1_def w0_def fresh ne attempt_rendered [OF rc]
        sample_basenames w3_def)
  have run: "main_batch sample_engine ?R ?cfg [?a, ?b, ?c] sample_world
      = w3\<lparr> console := console w3 @ [Completed] \<rparr>"
    by (simp add: main_batch_def Let_def w0_def [symmetric] s1 s2 s3)
  have line: "?b @ js '' - '' @ ?msg
      = js ''/photos/b.png - Input file contains unsupported image format''"
    by (simp add: js_def)
  have final: "w3\<lparr> console := console w3 @ [Completed] \<rparr>
     = sample_world
         \<lparr> files := (files sample_world)(?ao \<mapsto> Rendered ra, ?co \<mapsto> Rendered rc),
           error_log :=
             [Truncate,
              Append (js ''/photos/b.png - Input file contains unsupported image format''
                      @ [10])],
           console :=
             [SavedNotice (js ''a_watermarked.png''), ErrorNotice ?b ?msg,
              SavedNotice (js ''c_watermarked.jpg''), Completed] \<rparr>"
    unfolding line [symmetric]
    by (simp add: w3_def w2_def w1_def w0_def sample_world_def)
  have log: "log_content (error_log (w3\<lparr> console := console w3 @ [Completed] \<rparr>))
       (js ''old lines'')
     = js ''/photos/b.png - Input file contains unsupported image format'' @ [10]"
    unfolding final by simp
  show ?thesis
    using final log unfolding run [symmetric] by blast
qed

end
